(* ===== verification/Argo_Prelude.thy ===== *)
theory Argo_Prelude
  imports Main "HOL-Library.Word" "HOL-Library.Sublist"
begin

text \<open>
  Shared vocabulary of the development: the machine types, the error-sum combinators that
  model Go's \<open>if err != nil { return ... }\<close>, and generic facts on lists and maps.

  \<^item> \<open>string\<close> (a list of \<open>char\<close>) is a Go \<open>string\<close>: a sequence of bytes, not of code points.
  \<^item> \<open>byte list\<close> is a Go \<open>[]byte\<close> holding binary data; \<open>byte list option\<close> is used where the
    code distinguishes the nil slice.
  \<^item> \<open>'e + 'a\<close> is a Go result \<open>(value, error)\<close>: \<open>Inl e\<close> is the error, \<open>Inr v\<close> the value.
\<close>

section \<open>Machine types\<close>

type_synonym byte = "8 word"
type_synonym uint16 = "16 word"
type_synonym uint32 = "32 word"
type_synonym uint64 = "64 word"

abbreviation ord :: "char \<Rightarrow> nat" where
  "ord c \<equiv> of_char c"

abbreviation lf :: char where "lf \<equiv> CHR 0x0A"
abbreviation cr :: char where "cr \<equiv> CHR 0x0D"

named_theorems result_iff \<open>rules that invert a successful result\<close>

section \<open>Results\<close>

definition rbind :: "'e + 'a \<Rightarrow> ('a \<Rightarrow> 'e + 'b) \<Rightarrow> 'e + 'b" where
  "rbind m f = (case m of Inl e \<Rightarrow> Inl e | Inr v \<Rightarrow> f v)"

definition require :: "bool \<Rightarrow> 'e \<Rightarrow> 'e + unit" where
  "require ok e = (if ok then Inr () else Inl e)"

definition map_err :: "('e \<Rightarrow> 'f) \<Rightarrow> 'e + 'a \<Rightarrow> 'f + 'a" where
  "map_err f m = (case m of Inl e \<Rightarrow> Inl (f e) | Inr v \<Rightarrow> Inr v)"

definition from_option :: "'e \<Rightarrow> 'a option \<Rightarrow> 'e + 'a" where
  "from_option e m = (case m of None \<Rightarrow> Inl e | Some v \<Rightarrow> Inr v)"

lemma rbind_simps [simp]:
  "rbind (Inl e) f = Inl e"
  "rbind (Inr v) f = f v"
  by (simp_all add: rbind_def)

lemma rbind_Inr_iff [result_iff]: "rbind m f = Inr y \<longleftrightarrow> (\<exists>x. m = Inr x \<and> f x = Inr y)"
  by (cases m) simp_all

lemma rbind_Inl_iff [result_iff]:
  "rbind m f = Inl e \<longleftrightarrow> m = Inl e \<or> (\<exists>x. m = Inr x \<and> f x = Inl e)"
  by (cases m) simp_all

lemma require_simps [simp]:
  "require True e = Inr ()"
  "require False e = Inl e"
  by (simp_all add: require_def)

lemma require_Inr_iff [result_iff]: "require ok e = Inr u \<longleftrightarrow> ok"
  by (simp add: require_def)

lemma require_Inl_iff [result_iff]: "require ok e = Inl f \<longleftrightarrow> \<not> ok \<and> f = e"
  by (auto simp: require_def)

lemma map_err_simps [simp]:
  "map_err f (Inl e) = Inl (f e)"
  "map_err f (Inr v) = Inr v"
  by (simp_all add: map_err_def)

lemma map_err_Inr_iff [result_iff]: "map_err f m = Inr y \<longleftrightarrow> m = Inr y"
  by (cases m) simp_all

lemma map_err_Inl_iff [result_iff]: "map_err f m = Inl e \<longleftrightarrow> (\<exists>d. m = Inl d \<and> e = f d)"
  by (cases m) auto

lemma from_option_simps [simp]:
  "from_option e None = Inl e"
  "from_option e (Some v) = Inr v"
  by (simp_all add: from_option_def)

lemma from_option_Inr_iff [result_iff]: "from_option e m = Inr y \<longleftrightarrow> m = Some y"
  by (cases m) simp_all

lemma from_option_Inl_iff [result_iff]: "from_option e m = Inl f \<longleftrightarrow> m = None \<and> f = e"
  by (cases m) auto

end
