(* ===== verification/Go_Text.thy ===== *)
theory Go_Text
  imports Argo_Prelude
begin

unbundle bit_operations_syntax

text \<open>
  The part of Go's standard library for text that the program uses, as functions on byte
  strings: the UTF-8 rules of \<open>for _, r := range s\<close> and \<open>unicode/utf8\<close>, the package
  \<open>strings\<close> (\<open>TrimSpace\<close>, \<open>TrimRight\<close>, \<open>Fields\<close>, \<open>Index\<close>, \<open>Split\<close>, \<open>ToLower\<close> on ASCII),
  decimal printing and parsing (\<open>strconv\<close>, \<open>fmt\<close>'s \<open>%d\<close>), \<open>net.JoinHostPort\<close> and
  \<open>encoding/hex\<close>.
  A rune is a \<open>nat\<close> (a code point); bytes are \<open>char\<close>.
\<close>

section \<open>Character classes\<close>

definition is_digit :: "char \<Rightarrow> bool" where
  "is_digit c \<longleftrightarrow> 48 \<le> ord c \<and> ord c \<le> 57"

definition is_lower :: "char \<Rightarrow> bool" where
  "is_lower c \<longleftrightarrow> 97 \<le> ord c \<and> ord c \<le> 122"

definition is_upper :: "char \<Rightarrow> bool" where
  "is_upper c \<longleftrightarrow> 65 \<le> ord c \<and> ord c \<le> 90"

definition ascii :: "string \<Rightarrow> bool" where
  "ascii s \<longleftrightarrow> list_all (\<lambda>c. ord c < 128) s"

definition lower_char :: "char \<Rightarrow> char" where
  "lower_char c = (if is_upper c then char_of (ord c + 32) else c)"

text \<open>\<open>strings.ToLower\<close> on ASCII text (its only use is on validated host names).\<close>

definition ToLower :: "string \<Rightarrow> string" where
  "ToLower s = map lower_char s"

lemma ord_inj [simp]: "ord c = ord d \<longleftrightarrow> c = d"
  by simp

lemma ord_less_256: "ord c < 256"
  using nat_of_char_less_256 [of c] by simp

lemma ToLower_Nil_iff [simp]: "ToLower s = [] \<longleftrightarrow> s = []"
  by (simp add: ToLower_def)

section \<open>UTF-8\<close>

definition rune_error :: nat where
  "rune_error = 0xFFFD"

definition in_range :: "nat \<Rightarrow> nat \<Rightarrow> char \<Rightarrow> bool" where
  "in_range lo hi c \<longleftrightarrow> lo \<le> ord c \<and> ord c \<le> hi"

text \<open>
  \<open>utf8.DecodeRuneInString\<close>: the first rune and its width in bytes; an encoding that is not
  valid UTF-8 gives the error rune with width 1.
\<close>

fun decode_tail2 :: "nat \<Rightarrow> string \<Rightarrow> nat \<times> nat" where
  "decode_tail2 x (b # _) =
     (if in_range 0x80 0xBF b then ((x mod 32) * 64 + ord b mod 64, 2) else (rune_error, 1))"
| "decode_tail2 x [] = (rune_error, 1)"

fun decode_tail3 :: "nat \<Rightarrow> nat \<Rightarrow> nat \<Rightarrow> string \<Rightarrow> nat \<times> nat" where
  "decode_tail3 x lo hi (b # c # _) =
     (if in_range lo hi b \<and> in_range 0x80 0xBF c
      then ((x mod 16) * 4096 + (ord b mod 64) * 64 + ord c mod 64, 3)
      else (rune_error, 1))"
| "decode_tail3 x lo hi _ = (rune_error, 1)"

fun decode_tail4 :: "nat \<Rightarrow> nat \<Rightarrow> nat \<Rightarrow> string \<Rightarrow> nat \<times> nat" where
  "decode_tail4 x lo hi (b # c # d # _) =
     (if in_range lo hi b \<and> in_range 0x80 0xBF c \<and> in_range 0x80 0xBF d
      then ((x mod 8) * 262144 + (ord b mod 64) * 4096 + (ord c mod 64) * 64 + ord d mod 64, 4)
      else (rune_error, 1))"
| "decode_tail4 x lo hi _ = (rune_error, 1)"

fun decode_rune :: "string \<Rightarrow> nat \<times> nat" where
  "decode_rune [] = (rune_error, 0)"
| "decode_rune (a # s) =
     (let x = ord a in
      if x < 0x80 then (x, 1)
      else if 0xC2 \<le> x \<and> x \<le> 0xDF then decode_tail2 x s
      else if 0xE0 \<le> x \<and> x \<le> 0xEF
        then decode_tail3 x (if x = 0xE0 then 0xA0 else 0x80) (if x = 0xED then 0x9F else 0xBF) s
      else if 0xF0 \<le> x \<and> x \<le> 0xF4
        then decode_tail4 x (if x = 0xF0 then 0x90 else 0x80) (if x = 0xF4 then 0x8F else 0xBF) s
      else (rune_error, 1))"

lemma decode_tail2_width: "snd (decode_tail2 x s) \<in> {1..Suc (length s)}"
  by (cases "(x, s)" rule: decode_tail2.cases) auto

lemma decode_tail3_width: "snd (decode_tail3 x lo hi s) \<in> {1..Suc (length s)}"
  by (cases "(x, lo, hi, s)" rule: decode_tail3.cases) auto

lemma decode_tail4_width: "snd (decode_tail4 x lo hi s) \<in> {1..Suc (length s)}"
  by (cases "(x, lo, hi, s)" rule: decode_tail4.cases) auto

text \<open>A case split of \<open>decode_rune\<close> by its lead byte.\<close>

lemma decode_rune_cases:
  assumes "ord c < 128 \<Longrightarrow> P (ord c, 1)"
    and "\<And>x. 0xC2 \<le> x \<Longrightarrow> x \<le> 0xDF \<Longrightarrow> P (decode_tail2 x s)"
    and "\<And>x. 0xE0 \<le> x \<Longrightarrow> x \<le> 0xEF \<Longrightarrow> P (decode_tail3 x (if x = 0xE0 then 0xA0 else 0x80)
           (if x = 0xED then 0x9F else 0xBF) s)"
    and "\<And>x. 0xF0 \<le> x \<Longrightarrow> x \<le> 0xF4 \<Longrightarrow> P (decode_tail4 x (if x = 0xF0 then 0x90 else 0x80)
           (if x = 0xF4 then 0x8F else 0xBF) s)"
    and "P (rune_error, 1)"
  shows "P (decode_rune (c # s))"
  unfolding decode_rune.simps Let_def using assms by presburger

declare decode_rune.simps(2) [simp del]

lemma decode_rune_width_Cons: "snd (decode_rune (c # s)) \<in> {1..Suc (length s)}"
  by (rule decode_rune_cases)
    (simp_all only: decode_tail2_width decode_tail3_width decode_tail4_width, simp_all)

lemma decode_rune_width: "s \<noteq> [] \<Longrightarrow> snd (decode_rune s) \<in> {1..length s}"
  using decode_rune_width_Cons by (cases s) auto

lemma decode_rune_width_pos [simp]: "decode_rune (c # s) = (r, n) \<Longrightarrow> 0 < n"
  using decode_rune_width_Cons [of c s] by simp

lemma mod_offset:
  fixes x a m :: nat
  assumes "a mod m = 0" "a \<le> x" "x < a + m"
  shows "x mod m = x - a"
proof -
  from assms(2) obtain k where k: "x = a + k" using le_Suc_ex by blast
  then have "x mod m = k mod m" using assms(1) by (metis add_0 mod_add_left_eq)
  with assms(3) k show ?thesis by simp
qed

lemma decode_tail2_big:
  "0xC2 \<le> x \<Longrightarrow> x \<le> 0xDF \<Longrightarrow> 128 \<le> fst (decode_tail2 x s)"
proof (cases "(x, s)" rule: decode_tail2.cases)
  case (1 x' b t)
  assume "0xC2 \<le> x" "x \<le> 0xDF"
  then have "2 \<le> x mod 32" using mod_offset [of 192 32 x] by simp
  with 1 show ?thesis by (auto simp: rune_error_def)
qed (auto simp: rune_error_def)

lemma decode_tail3_big:
  assumes "0xE0 \<le> x" "x \<le> 0xEF" "x = 0xE0 \<Longrightarrow> 0xA0 \<le> lo" "hi \<le> 0xBF"
  shows "128 \<le> fst (decode_tail3 x lo hi s)"
proof (cases "(x, lo, hi, s)" rule: decode_tail3.cases)
  case (1 x' lo' hi' b c t)
  have "128 \<le> (x mod 16) * 4096 + (ord b mod 64) * 64" if "in_range lo hi b"
  proof (cases "x = 0xE0")
    case True
    with assms that have "0xA0 \<le> ord b" "ord b \<le> 0xBF" by (auto simp: in_range_def)
    then have "2 \<le> ord b mod 64" using mod_offset [of 128 64 "ord b"] by simp
    then show ?thesis by simp
  next
    case False
    with assms have "1 \<le> x mod 16" using mod_offset [of 224 16 x] by simp
    then show ?thesis by simp
  qed
  with 1 show ?thesis by (auto simp: rune_error_def)
qed (auto simp: rune_error_def)

lemma decode_tail4_big:
  assumes "0xF0 \<le> x" "x \<le> 0xF4" "x = 0xF0 \<Longrightarrow> 0x90 \<le> lo" "hi \<le> 0xBF"
  shows "128 \<le> fst (decode_tail4 x lo hi s)"
proof (cases "(x, lo, hi, s)" rule: decode_tail4.cases)
  case (1 x' lo' hi' b c d t)
  have "128 \<le> (x mod 8) * 262144 + (ord b mod 64) * 4096" if "in_range lo hi b"
  proof (cases "x = 0xF0")
    case True
    with assms that have "0x90 \<le> ord b" "ord b \<le> 0xBF" by (auto simp: in_range_def)
    then have "1 \<le> ord b mod 64" using mod_offset [of 128 64 "ord b"] by simp
    then show ?thesis by simp
  next
    case False
    with assms have "1 \<le> x mod 8" using mod_offset [of 240 8 x] by simp
    then show ?thesis by simp
  qed
  with 1 show ?thesis by (auto simp: rune_error_def)
qed (auto simp: rune_error_def)

text \<open>A lead byte outside ASCII never decodes to an ASCII rune.\<close>

lemma decode_rune_big: "128 \<le> ord c \<Longrightarrow> 128 \<le> fst (decode_rune (c # s))"
  by (rule decode_rune_cases)
    (simp_all add: decode_tail2_big decode_tail3_big decode_tail4_big rune_error_def)

lemma decode_rune_ascii [simp]: "ord c < 128 \<Longrightarrow> decode_rune (c # s) = (ord c, 1)"
  by (simp add: decode_rune.simps)

text \<open>\<open>for _, r := range s\<close>: the runes of a string with the bytes each stands for.\<close>

function runes :: "string \<Rightarrow> (nat \<times> string) list" where
  "runes [] = []"
| "runes (c # s) =
     (case decode_rune (c # s) of (r, n) \<Rightarrow> (r, take n (c # s)) # runes (drop n (c # s)))"
  by pat_completeness auto
termination
proof (relation "measure length")
  fix c s x r n
  assume "(r, n) = decode_rune (c # s)"
  then have "0 < n" by (metis decode_rune_width_pos)
  then show "(drop n (c # s), c # s) \<in> measure length" by simp
qed simp

declare runes.simps(2) [simp del]

lemma runes_ascii [simp]: "ord c < 128 \<Longrightarrow> runes (c # s) = (ord c, [c]) # runes s"
  by (simp add: runes.simps(2))

lemma concat_runes: "concat (map snd (runes s)) = s"
proof (induction s rule: runes.induct)
  case (2 c s)
  obtain r n where rn: "decode_rune (c # s) = (r, n)" by force
  with 2 show ?case by (simp add: runes.simps(2))
qed simp

lemma runes_all_ascii: "ascii s \<Longrightarrow> runes s = map (\<lambda>c. (ord c, [c])) s"
  by (induction s) (auto simp: ascii_def)

text \<open>
  A loop over the runes that accepts only ASCII runes is the same loop over the bytes.
\<close>

lemma all_runes_bytes:
  assumes "\<And>r. P r \<Longrightarrow> r < 128"
  shows "list_all (\<lambda>x. P (fst x)) (runes s) \<longleftrightarrow> list_all (\<lambda>c. P (ord c)) s"
proof (induction s rule: runes.induct)
  case (2 c s)
  show ?case
  proof (cases "ord c < 128")
    case True
    with 2 [of "ord c" 1] show ?thesis by simp
  next
    case False
    obtain r n where rn: "decode_rune (c # s) = (r, n)" by force
    with False decode_rune_big [of c s] have "\<not> P r" "\<not> P (ord c)"
      using assms by (auto dest: assms)
    with rn show ?thesis by (simp add: runes.simps(2))
  qed
qed simp

section \<open>Package strings\<close>

text \<open>\<open>unicode.IsSpace\<close>.\<close>

definition is_space :: "nat \<Rightarrow> bool" where
  "is_space r \<longleftrightarrow>
     r = 9 \<or> r = 10 \<or> r = 11 \<or> r = 12 \<or> r = 13 \<or> r = 32 \<or> r = 0x85 \<or> r = 0xA0 \<or> r = 0x1680
     \<or> (0x2000 \<le> r \<and> r \<le> 0x200A) \<or> r = 0x2028 \<or> r = 0x2029 \<or> r = 0x202F \<or> r = 0x205F
     \<or> r = 0x3000"

text \<open>\<open>utf8.DecodeLastRuneInString\<close>: look back at most four bytes for a lead byte.\<close>

definition rune_start :: "char \<Rightarrow> bool" where
  "rune_start c \<longleftrightarrow> \<not> (0x80 \<le> ord c \<and> ord c < 0xC0)"

definition last_rune_at :: "string \<Rightarrow> nat \<Rightarrow> nat \<times> nat" where
  "last_rune_at s k =
     (case decode_rune (drop (length s - k) s) of
        (r, n) \<Rightarrow> if n = k then (r, n) else (rune_error, 1))"

definition decode_last_rune :: "string \<Rightarrow> nat \<times> nat" where
  "decode_last_rune s =
     (if s = [] then (rune_error, 0)
      else if ord (last s) < 0x80 then (ord (last s), 1)
      else if 2 \<le> length s \<and> rune_start (s ! (length s - 2)) then last_rune_at s 2
      else if 3 \<le> length s \<and> rune_start (s ! (length s - 3)) then last_rune_at s 3
      else if 4 \<le> length s \<and> rune_start (s ! (length s - 4)) then last_rune_at s 4
      else (rune_error, 1))"

lemma decode_last_rune_ascii [simp]: "ord c < 128 \<Longrightarrow> decode_last_rune (s @ [c]) = (ord c, 1)"
  by (simp add: decode_last_rune_def)

lemma last_rune_at_width: "0 < k \<Longrightarrow> k \<le> n \<Longrightarrow> snd (last_rune_at s k) \<in> {1..n}"
  by (auto simp: last_rune_at_def split: prod.split)

lemma decode_last_rune_width: "s \<noteq> [] \<Longrightarrow> snd (decode_last_rune s) \<in> {1..length s}"
  using last_rune_at_width [of 2 "length s" s] last_rune_at_width [of 3 "length s" s]
    last_rune_at_width [of 4 "length s" s]
  by (simp add: decode_last_rune_def Suc_le_eq)

text \<open>\<open>strings.TrimSpace\<close>: drop white space runes on the left, then on the right.\<close>

function trim_left_space :: "string \<Rightarrow> string" where
  "trim_left_space [] = []"
| "trim_left_space (c # s) =
     (case decode_rune (c # s) of
        (r, n) \<Rightarrow> if is_space r then trim_left_space (drop n (c # s)) else c # s)"
  by pat_completeness auto
termination
proof (relation "measure length")
  fix c s x r n
  assume "(r, n) = decode_rune (c # s)"
  then have "0 < n" by (metis decode_rune_width_pos)
  then show "(drop n (c # s), c # s) \<in> measure length" by simp
qed simp

function trim_right_space :: "string \<Rightarrow> string" where
  "trim_right_space s =
     (if s = [] then []
      else case decode_last_rune s of
        (r, n) \<Rightarrow> if is_space r then trim_right_space (take (length s - n) s) else s)"
  by pat_completeness auto
termination
proof (relation "measure length")
  fix s :: string and r n
  assume "s \<noteq> []" "(r, n) = decode_last_rune s"
  with decode_last_rune_width [of s] have "0 < n"
    by (metis atLeastAtMost_iff less_eq_Suc_le One_nat_def snd_conv)
  with \<open>s \<noteq> []\<close> show "(take (length s - n) s, s) \<in> measure length" by simp
qed simp

declare trim_right_space.simps [simp del]
declare trim_left_space.simps(2) [simp del]

definition TrimSpace :: "string \<Rightarrow> string" where
  "TrimSpace s = trim_right_space (trim_left_space s)"

lemma trim_right_space_Nil [simp]: "trim_right_space [] = []"
  by (simp add: trim_right_space.simps)

lemma trim_right_space_snoc [simp]:
  "ord c < 128 \<Longrightarrow>
   trim_right_space (s @ [c]) = (if is_space (ord c) then trim_right_space s else s @ [c])"
  by (simp add: trim_right_space.simps [of "s @ [c]"])

lemma trim_left_space_Cons [simp]:
  "ord c < 128 \<Longrightarrow>
   trim_left_space (c # s) = (if is_space (ord c) then trim_left_space s else c # s)"
  by (simp add: trim_left_space.simps(2))

text \<open>Text that starts and ends with an ASCII byte that is not white space is trimmed already.\<close>

lemma TrimSpace_id:
  assumes "s \<noteq> []" "ord (hd s) < 128" "\<not> is_space (ord (hd s))"
    "ord (last s) < 128" "\<not> is_space (ord (last s))"
  shows "TrimSpace s = s"
proof -
  from assms(1-3) have "trim_left_space s = s"
    by (cases s) simp_all
  moreover obtain t c where "s = t @ [c]" using assms(1) by (cases s rule: rev_cases) auto
  ultimately show ?thesis using assms(4,5) by (simp add: TrimSpace_def)
qed

text \<open>\<open>strings.Fields\<close>: the maximal runs of runes that are not white space.\<close>

definition emit :: "string \<Rightarrow> string list \<Rightarrow> string list" where
  "emit cur ws = (if cur = [] then ws else cur # ws)"

fun fields_acc :: "string \<Rightarrow> (nat \<times> string) list \<Rightarrow> string list" where
  "fields_acc cur [] = emit cur []"
| "fields_acc cur ((r, bs) # rs) =
     (if is_space r then emit cur (fields_acc [] rs) else fields_acc (cur @ bs) rs)"

definition Fields :: "string \<Rightarrow> string list" where
  "Fields s = fields_acc [] (runes s)"

definition plain_word :: "string \<Rightarrow> bool" where
  "plain_word w \<longleftrightarrow> w \<noteq> [] \<and> list_all (\<lambda>c. ord c < 128 \<and> \<not> is_space (ord c)) w"

lemma fields_acc_word:
  "list_all (\<lambda>c. ord c < 128 \<and> \<not> is_space (ord c)) w \<Longrightarrow>
   fields_acc cur (runes (w @ s)) = fields_acc (cur @ w) (runes s)"
  by (induction w arbitrary: cur) simp_all

lemma Fields_word: "plain_word w \<Longrightarrow> Fields w = [w]"
  using fields_acc_word [of w "[]" "[]"] by (simp add: Fields_def plain_word_def emit_def)

lemma Fields_word_space:
  "plain_word w \<Longrightarrow> Fields (w @ CHR '' '' # s) = w # Fields s"
  using fields_acc_word [of w "[]" "CHR '' '' # s"]
  by (simp add: Fields_def plain_word_def emit_def is_space_def)

lemma plain_word_append [simp]:
  "plain_word (v @ w) \<longleftrightarrow>
     (if v = [] then plain_word w else if w = [] then plain_word v else plain_word v \<and> plain_word w)"
  by (auto simp: plain_word_def)

text \<open>\<open>strings.TrimRight\<close> with an ASCII cutset.\<close>

definition TrimRight :: "string \<Rightarrow> string \<Rightarrow> string" where
  "TrimRight s cutset = rev (dropWhile (\<lambda>c. c \<in> set cutset) (rev s))"

lemma TrimRight_Nil [simp]: "TrimRight [] cs = []"
  by (simp add: TrimRight_def)

lemma TrimRight_snoc [simp]:
  "TrimRight (s @ [c]) cs = (if c \<in> set cs then TrimRight s cs else s @ [c])"
  by (simp add: TrimRight_def)

lemma TrimRight_prefix: "\<exists>t. s = TrimRight s cs @ t \<and> set t \<subseteq> set cs"
proof (induction s rule: rev_induct)
  case (snoc c s)
  then obtain t where t: "s = TrimRight s cs @ t" "set t \<subseteq> set cs" by blast
  show ?case
  proof (cases "c \<in> set cs")
    case True
    with t have "s @ [c] = TrimRight (s @ [c]) cs @ (t @ [c])" "set (t @ [c]) \<subseteq> set cs" by auto
    then show ?thesis by blast
  qed auto
qed simp

lemma TrimRight_last: "TrimRight s cs \<noteq> [] \<Longrightarrow> last (TrimRight s cs) \<notin> set cs"
  by (induction s rule: rev_induct) auto

lemma TrimRight_id: "s = [] \<or> last s \<notin> set cs \<Longrightarrow> TrimRight s cs = s"
  by (cases s rule: rev_cases) auto

lemma TrimRight_idem [simp]: "TrimRight (TrimRight s cs) cs = TrimRight s cs"
  using TrimRight_last [of s cs] TrimRight_id [of "TrimRight s cs" cs] by blast

lemma TrimRight_append_cut: "set t \<subseteq> set cs \<Longrightarrow> TrimRight (s @ t) cs = TrimRight s cs"
  by (induction t rule: rev_induct) (auto simp flip: append_assoc)

text \<open>\<open>strings.Index\<close>.\<close>

fun Index :: "string \<Rightarrow> string \<Rightarrow> nat option" where
  "Index [] sub = (if sub = [] then Some 0 else None)"
| "Index (c # s) sub = (if prefix sub (c # s) then Some 0 else map_option Suc (Index s sub))"

lemma Index_prefix: "prefix sub s \<Longrightarrow> Index s sub = Some 0"
  by (cases s) auto

lemma Index_Some_split:
  "Index s sub = Some i \<Longrightarrow> i + length sub \<le> length s \<and> s = take i s @ sub @ drop (i + length sub) s"
proof (induction s arbitrary: i)
  case (Cons c s)
  show ?case
  proof (cases "prefix sub (c # s)")
    case True
    then obtain t where "c # s = sub @ t" by (rule prefixE)
    with Cons.prems show ?thesis by (simp flip: length_Cons add: Index_prefix)
  next
    case False
    with Cons show ?thesis by auto
  qed
qed (auto split: if_splits)

lemma Index_None_iff: "Index s sub = None \<longleftrightarrow> \<not> sublist sub s"
  by (induction s) (auto simp: sublist_Cons_right)

text \<open>An occurrence of \<open>sub\<close> lies on one side of a byte that \<open>sub\<close> does not contain.\<close>

lemma prefix_append_avoid:
  assumes "x \<notin> set sub"
  shows "prefix sub (a @ x # b) \<longleftrightarrow> prefix sub a"
proof
  assume "prefix sub (a @ x # b)"
  then consider "prefix sub a" | us where "sub = a @ us" "prefix us (x # b)"
    by (auto simp: prefix_append)
  then show "prefix sub a"
  proof cases
    case 2
    with assms show ?thesis by (cases us) auto
  qed
qed (auto simp: prefix_append)

lemma Index_append_avoid:
  assumes "x \<notin> set sub" "sub \<noteq> []"
  shows "Index (a @ x # b) sub =
    (case Index a sub of Some i \<Rightarrow> Some i
     | None \<Rightarrow> map_option (\<lambda>i. Suc (length a) + i) (Index b sub))"
proof (induction a)
  case Nil
  have "\<not> prefix sub (x # b)"
    using assms by (cases sub) auto
  then show ?case using assms(2) by (cases "Index b sub") simp_all
next
  case (Cons c a)
  have "prefix sub (c # a @ x # b) \<longleftrightarrow> prefix sub (c # a)"
    using prefix_append_avoid [OF assms(1), of "c # a" b] by simp
  with Cons show ?case by (cases "Index b sub") (auto split: option.splits)
qed

lemma Index_skip:
  assumes "sub \<noteq> []"
  shows "hd sub \<notin> set a \<Longrightarrow> Index (a @ sub @ t) sub = Some (length a)"
proof (induction a)
  case Nil
  show ?case by (simp add: Index_prefix)
next
  case (Cons c a)
  then have "\<not> prefix sub (c # a @ sub @ t)" using assms by (cases sub) auto
  with Cons show ?case by simp
qed

text \<open>\<open>strings.Split\<close> at a one-byte separator.\<close>

fun Split :: "string \<Rightarrow> char \<Rightarrow> string list" where
  "Split [] d = [[]]"
| "Split (c # s) d =
     (if c = d then [] # Split s d
      else case Split s d of w # ws \<Rightarrow> (c # w) # ws | [] \<Rightarrow> [[c]])"

lemma Split_not_Nil [simp]: "Split s d \<noteq> []"
  by (cases s) (auto split: list.splits)

lemma Split_avoid: "d \<notin> set s \<Longrightarrow> Split s d = [s]"
  by (induction s) auto

lemma Split_append: "d \<notin> set a \<Longrightarrow> Split (a @ d # b) d = a # Split b d"
  by (induction a) auto

lemma Split_pieces: "w \<in> set (Split s d) \<Longrightarrow> d \<notin> set w \<and> set w \<subseteq> set s"
  by (induction s arbitrary: w) (fastforce split: if_splits list.splits)+

lemma Split_join: "concat (map (\<lambda>w. w @ [d]) (Split s d)) = s @ [d]"
  by (induction s) (auto split: list.splits)

lemma Split_join_lines:
  "\<forall>w \<in> set ws. d \<notin> set w \<Longrightarrow> Split (concat (map (\<lambda>w. w @ [d]) ws) @ s) d = ws @ Split s d"
  by (induction ws) (auto simp: Split_append)

section \<open>Decimal numbers\<close>

definition digit_char :: "nat \<Rightarrow> char" where
  "digit_char n = char_of (48 + n)"

definition digit_val :: "char \<Rightarrow> nat" where
  "digit_val c = ord c - 48"

text \<open>\<open>strconv.Itoa\<close> and \<open>%d\<close> on a number that is not negative.\<close>

fun Itoa :: "nat \<Rightarrow> string" where
  "Itoa n = (if n < 10 then [digit_char n] else Itoa (n div 10) @ [digit_char (n mod 10)])"

declare Itoa.simps [simp del]

definition dec_value :: "string \<Rightarrow> nat" where
  "dec_value s = foldl (\<lambda>v c. v * 10 + digit_val c) 0 s"

definition all_digits :: "string \<Rightarrow> bool" where
  "all_digits s \<longleftrightarrow> s \<noteq> [] \<and> list_all is_digit s"

text \<open>\<open>strconv.ParseUint(s, 10, bits)\<close>; \<open>None\<close> is a syntax or a range error.\<close>

definition ParseUint :: "nat \<Rightarrow> string \<Rightarrow> nat option" where
  "ParseUint bits s =
     (if all_digits s \<and> dec_value s < 2 ^ bits then Some (dec_value s) else None)"

text \<open>\<open>strconv.Atoi\<close> with a 64-bit \<open>int\<close>.\<close>

definition Atoi :: "string \<Rightarrow> int option" where
  "Atoi s =
     (let neg = (s \<noteq> [] \<and> hd s = CHR ''-'');
          body = (if s \<noteq> [] \<and> (hd s = CHR ''-'' \<or> hd s = CHR ''+'') then tl s else s);
          v = (if neg then - int (dec_value body) else int (dec_value body))
      in if all_digits body \<and> - (2 ^ 63) \<le> v \<and> v < 2 ^ 63 then Some v else None)"

text \<open>\<open>strconv.ParseBool\<close>.\<close>

definition ParseBool :: "string \<Rightarrow> bool option" where
  "ParseBool s =
     (if s \<in> {''1'', ''t'', ''T'', ''TRUE'', ''true'', ''True''} then Some True
      else if s \<in> {''0'', ''f'', ''F'', ''FALSE'', ''false'', ''False''} then Some False
      else None)"

lemma digit_char_props [simp]:
  assumes "n < 10"
  shows "is_digit (digit_char n)" "digit_val (digit_char n) = n" "ord (digit_char n) = 48 + n"
  using assms by (simp_all add: digit_char_def is_digit_def digit_val_def)

lemma digit_char_0: "digit_char 0 = CHR ''0''"
proof -
  have "ord (digit_char 0) = ord (CHR ''0'')" by simp
  then show ?thesis by (simp only: ord_inj)
qed

lemma digit_char_val [simp]: "is_digit c \<Longrightarrow> digit_char (digit_val c) = c"
  by (simp add: digit_char_def digit_val_def is_digit_def)

lemma digit_val_less [simp]: "is_digit c \<Longrightarrow> digit_val c < 10"
  by (auto simp: digit_val_def is_digit_def)

lemma dec_value_simps [simp]:
  "dec_value [] = 0"
  "dec_value (s @ [c]) = dec_value s * 10 + digit_val c"
  by (simp_all add: dec_value_def)

lemma Itoa_small: "n < 10 \<Longrightarrow> Itoa n = [digit_char n]"
  by (simp add: Itoa.simps)

lemma Itoa_large: "10 \<le> n \<Longrightarrow> Itoa n = Itoa (n div 10) @ [digit_char (n mod 10)]"
  by (subst Itoa.simps) simp

lemma Itoa_induct [case_names small large]:
  fixes n :: nat
  assumes "\<And>n. n < 10 \<Longrightarrow> P n" "\<And>n. 10 \<le> n \<Longrightarrow> P (n div 10) \<Longrightarrow> P n"
  shows "P n"
  using assms by (induction n rule: Itoa.induct) (metis not_le)

lemma Itoa_digits [simp]: "all_digits (Itoa n)"
  by (induction n rule: Itoa_induct) (auto simp: Itoa_small Itoa_large all_digits_def)

lemma Itoa_not_Nil [simp]: "Itoa n \<noteq> []"
  using Itoa_digits [of n] by (simp add: all_digits_def del: Itoa_digits)

lemma dec_value_single [simp]: "dec_value [c] = digit_val c"
  by (simp add: dec_value_def)

lemma dec_value_Itoa [simp]: "dec_value (Itoa n) = n"
  by (induction n rule: Itoa_induct) (simp_all add: Itoa_small Itoa_large)

lemma Itoa_inj [simp]: "Itoa m = Itoa n \<longleftrightarrow> m = n"
  by (metis dec_value_Itoa)

lemma ParseUint_Itoa [simp]: "n < 2 ^ bits \<Longrightarrow> ParseUint bits (Itoa n) = Some n"
  by (simp add: ParseUint_def)

lemma ParseUint_bound: "ParseUint bits s = Some n \<Longrightarrow> n < 2 ^ bits"
  by (auto simp: ParseUint_def split: if_splits)

lemma Itoa_set: "c \<in> set (Itoa n) \<Longrightarrow> is_digit c"
  using Itoa_digits [of n] by (auto simp: all_digits_def list_all_iff simp del: Itoa_digits)

lemma digit_char_zero_iff: "n < 10 \<Longrightarrow> digit_char n = CHR ''0'' \<longleftrightarrow> n = 0"
proof -
  assume n: "n < 10"
  have "digit_char n = CHR ''0'' \<longleftrightarrow> ord (digit_char n) = ord (CHR ''0'')" by (simp only: ord_inj)
  also have "\<dots> \<longleftrightarrow> 48 + n = 48" by (simp only: digit_char_props [OF n]) simp
  finally show ?thesis by simp
qed

lemma Itoa_hd: "hd (Itoa n) = CHR ''0'' \<Longrightarrow> n = 0"
  by (induction n rule: Itoa_induct) (simp_all add: Itoa_small Itoa_large digit_char_zero_iff)

text \<open>Digit strings without a leading zero are exactly what \<open>Itoa\<close> prints.\<close>

lemma Itoa_dec_value:
  "all_digits s \<Longrightarrow> length s = 1 \<or> hd s \<noteq> CHR ''0'' \<Longrightarrow> Itoa (dec_value s) = s"
proof (induction s rule: rev_induct)
  case (snoc c s)
  show ?case
  proof (cases "s = []")
    case True
    with snoc.prems show ?thesis by (simp add: all_digits_def Itoa_small)
  next
    case False
    with snoc.prems have s: "all_digits s" "hd s \<noteq> CHR ''0''" and c: "is_digit c"
      by (auto simp: all_digits_def)
    then have IH: "Itoa (dec_value s) = s" using snoc.IH by blast
    have "dec_value s \<noteq> 0"
    proof
      assume "dec_value s = 0"
      with IH have "s = [digit_char 0]" by (metis Itoa_small zero_less_numeral)
      with s show False by (simp add: digit_char_0)
    qed
    with c show ?thesis by (simp add: Itoa_large IH)
  qed
qed (simp add: all_digits_def)

text \<open>\<open>net.JoinHostPort\<close>.\<close>

definition JoinHostPort :: "string \<Rightarrow> string \<Rightarrow> string" where
  "JoinHostPort host port =
     (if CHR '':'' \<in> set host then ''['' @ host @ '']:'' @ port else host @ '':'' @ port)"

section \<open>Package encoding/hex\<close>

definition hex_digits :: string where
  "hex_digits = ''0123456789abcdef''"

definition hex_digit :: "byte \<Rightarrow> char" where
  "hex_digit b = hex_digits ! unat b"

text \<open>The table of \<open>hex.DecodeString\<close>: digits, lower case and upper case letters.\<close>

definition hex_value :: "char \<Rightarrow> byte option" where
  "hex_value c =
     (if 48 \<le> ord c \<and> ord c \<le> 57 then Some (of_nat (ord c - 48))
      else if 97 \<le> ord c \<and> ord c \<le> 102 then Some (of_nat (ord c - 87))
      else if 65 \<le> ord c \<and> ord c \<le> 70 then Some (of_nat (ord c - 55))
      else None)"

definition hex_byte :: "byte \<Rightarrow> string" where
  "hex_byte b = [hex_digit (drop_bit 4 b), hex_digit (b AND 15)]"

definition EncodeToString :: "byte list \<Rightarrow> string" where
  "EncodeToString bs = concat (map hex_byte bs)"

fun DecodeString :: "string \<Rightarrow> byte list option" where
  "DecodeString [] = Some []"
| "DecodeString [c] = None"
| "DecodeString (p # q # s) =
     (case (hex_value p, hex_value q) of
        (Some a, Some b) \<Rightarrow> map_option ((#) (push_bit 4 a OR b)) (DecodeString s)
      | _ \<Rightarrow> None)"

lemma EncodeToString_simps [simp]:
  "EncodeToString [] = []"
  "EncodeToString (b # bs) = hex_byte b @ EncodeToString bs"
  by (simp_all add: EncodeToString_def)

lemma EncodeToString_Nil_iff [simp]: "EncodeToString bs = [] \<longleftrightarrow> bs = []"
  by (cases bs) (simp_all add: hex_byte_def)

lemma length_EncodeToString [simp]: "length (EncodeToString bs) = 2 * length bs"
  by (induction bs) (simp_all add: hex_byte_def)

text \<open>The two tables are inverse to each other, up to the case of letters.\<close>

lemma and_15: "(b::byte) AND 15 = take_bit 4 b"
  by (simp add: take_bit_eq_mask mask_eq_exp_minus_1)

lemma nibble_bounds: "unat (drop_bit 4 (b::byte)) < 16" "unat (take_bit 4 (b::byte)) < 16"
proof -
  have b: "unat b < 256" using unsigned_less [of b] by simp
  have "unat (drop_bit 4 b) = unat b div 16"
    by (simp only: unsigned_drop_bit_eq) (simp add: drop_bit_eq_div take_bit_nat_eq_self b)
  with b show "unat (drop_bit 4 b) < 16" by simp
  have "unat (take_bit 4 b) = unat b mod 16"
    by (simp only: unsigned_take_bit_eq) (simp add: take_bit_eq_mod)
  then show "unat (take_bit 4 b) < 16" by simp
qed

lemma hex_value_digits: "n < 16 \<Longrightarrow> hex_value (hex_digits ! n) = Some (of_nat n)"
proof -
  have "list_all (\<lambda>n. hex_value (hex_digits ! n) = Some (of_nat n)) [0..<16]" by code_simp
  then show "n < 16 \<Longrightarrow> hex_value (hex_digits ! n) = Some (of_nat n)" by (simp add: list_all_iff)
qed

lemma hex_value_digit: "unat b < 16 \<Longrightarrow> hex_value (hex_digit b) = Some b"
  by (simp add: hex_digit_def hex_value_digits)

lemma nibbles_join: "push_bit 4 (drop_bit 4 b) OR take_bit 4 b = (b::byte)"
  by (rule bit_word_eqI) (auto simp: bit_simps)

lemma nibble_take: "unat x < 16 \<Longrightarrow> take_bit 4 x = (x::byte)"
proof -
  assume "unat x < 16"
  then have "unat (take_bit 4 x) = unat x"
    by (simp only: unsigned_take_bit_eq) (simp add: take_bit_nat_eq_self)
  then show ?thesis by (simp only: word_eq_iff_unsigned [symmetric])
qed
lemma nibbles_split:
  assumes "unat a < 16" "unat b < 16"
  shows "drop_bit 4 (push_bit 4 a OR b) = (a::byte)" "take_bit 4 (push_bit 4 a OR b) = (b::byte)"
proof -
  have "drop_bit 4 (push_bit 4 (take_bit 4 a) OR take_bit 4 b) = take_bit 4 a"
    by (rule bit_word_eqI) (auto simp: bit_simps)
  with assms show "drop_bit 4 (push_bit 4 a OR b) = a" by (simp only: nibble_take)
  have "take_bit 4 (push_bit 4 a OR take_bit 4 b) = take_bit 4 b"
    by (rule bit_word_eqI) (auto simp: bit_simps)
  with assms show "take_bit 4 (push_bit 4 a OR b) = b" by (simp only: nibble_take)
qed

lemma hex_digits_ord: "n < 16 \<Longrightarrow> ord (hex_digits ! n) = (if n < 10 then 48 + n else 87 + n)"
proof -
  have "list_all (\<lambda>n. ord (hex_digits ! n) = (if n < 10 then 48 + n else 87 + n)) [0..<16]"
    by code_simp
  then show "n < 16 \<Longrightarrow> ?thesis" by (simp add: list_all_iff)
qed

lemma unat_small: "k < 16 \<Longrightarrow> unat (of_nat k :: byte) = k"
  by (simp add: unsigned_of_nat take_bit_nat_eq_self)

lemma hex_digit_value: "hex_value c = Some a \<Longrightarrow> unat a < 16 \<and> hex_digit a = lower_char c"
proof -
  assume c: "hex_value c = Some a"
  obtain k where k: "k < 16" "a = of_nat k" "ord (lower_char c) = (if k < 10 then 48 + k else 87 + k)"
  proof (cases "48 \<le> ord c \<and> ord c \<le> 57")
    case True
    with c show ?thesis
      by (intro that [of "ord c - 48"]) (auto simp: hex_value_def lower_char_def is_upper_def)
  next
    case False
    show ?thesis
    proof (cases "97 \<le> ord c \<and> ord c \<le> 102")
      case True
      with c show ?thesis
        by (intro that [of "ord c - 87"]) (auto simp: hex_value_def lower_char_def is_upper_def)
    next
      case Upper: False
      with c False have "65 \<le> ord c" "ord c \<le> 70" "a = of_nat (ord c - 55)"
        by (auto simp: hex_value_def split: if_splits)
      then show ?thesis
        by (intro that [of "ord c - 55"]) (auto simp: lower_char_def is_upper_def)
    qed
  qed
  then have "ord (hex_digit a) = ord (lower_char c)"
    by (simp add: hex_digit_def unat_small hex_digits_ord)
  then have "hex_digit a = lower_char c" by (simp only: ord_inj)
  with k show ?thesis by (simp add: unat_small)
qed

text \<open>Decoding inverts encoding.\<close>

lemma DecodeString_hex_byte: "DecodeString (hex_byte b @ s) = map_option ((#) b) (DecodeString s)"
  using nibble_bounds [of b] by (simp add: hex_byte_def and_15 hex_value_digit nibbles_join)

lemma Decode_Encode [simp]: "DecodeString (EncodeToString bs) = Some bs"
  by (induction bs) (simp_all add: DecodeString_hex_byte)

text \<open>Encoding what was decoded gives the input back, in lower case.\<close>

lemma Encode_Decode: "DecodeString s = Some bs \<Longrightarrow> EncodeToString bs = ToLower s"
proof (induction s arbitrary: bs rule: DecodeString.induct)
  case (3 p q s)
  then obtain a b cs where ab: "hex_value p = Some a" "hex_value q = Some b"
    and cs: "DecodeString s = Some cs" "bs = (push_bit 4 a OR b) # cs"
    by (auto split: option.splits)
  with "3.IH" have "EncodeToString cs = ToLower s" by blast
  moreover have "hex_byte (push_bit 4 a OR b) = [lower_char p, lower_char q]"
    using hex_digit_value [OF ab(1)] hex_digit_value [OF ab(2)]
    unfolding hex_byte_def and_15 by (simp only: nibbles_split)
  ultimately show ?case using cs by (simp add: ToLower_def)
qed (simp_all add: ToLower_def)

lemma DecodeString_length: "DecodeString s = Some bs \<Longrightarrow> length s = 2 * length bs"
  using Encode_Decode [of s bs] by (metis length_EncodeToString length_map ToLower_def)

definition hex_char :: "char \<Rightarrow> bool" where
  "hex_char c \<longleftrightarrow> is_digit c \<or> 97 \<le> ord c \<and> ord c \<le> 102"

lemma hex_digit_char: "unat b < 16 \<Longrightarrow> hex_char (hex_digit b)"
  by (auto simp: hex_char_def hex_digit_def hex_digits_ord is_digit_def)

lemma EncodeToString_hex_char: "list_all hex_char (EncodeToString bs)"
  by (induction bs) (simp_all add: hex_byte_def and_15 hex_digit_char nibble_bounds)

end
