(* ===== verification/Go_Json.thy ===== *)
theory Go_Json
  imports Go_Text
begin

text \<open>
  The part of Go's \<open>encoding/json\<close> that the program uses: the scanner as the byte-by-byte state
  machine of the package (its states, its stack of open arrays and objects and its nesting
  limit), \<open>Decoder.Decode\<close> as "one value and the rest of the input", the string literal rules in
  both directions, and the match of an object key against a struct field.

  A JSON value is kept as a tree. Members of an object stay in the order of the text with
  their duplicates, because the code decodes some objects into structs (each member in turn)
  and others into a map (the last duplicate wins). A number keeps its text. \<open>json.RawMessage\<close>
  is the tree of the value instead of its text.
\<close>

section \<open>Values\<close>

datatype json =
    JNull
  | JBool bool
  | JNum string
  | JStr string
  | JArr "json list"
  | JObj "(string \<times> json) list"

abbreviation dquote :: char where "dquote \<equiv> CHR 0x22"
abbreviation bslash :: char where "bslash \<equiv> CHR 0x5C"

section \<open>String literals\<close>

text \<open>\<open>utf8.EncodeRune\<close>.\<close>

definition encode_rune :: "nat \<Rightarrow> string" where
  "encode_rune r =
     (if r < 0x80 then [char_of r]
      else if r < 0x800 then [char_of (0xC0 + r div 64), char_of (0x80 + r mod 64)]
      else if r > 0x10FFFF \<or> (0xD800 \<le> r \<and> r < 0xE000) then [CHR 0xEF, CHR 0xBF, CHR 0xBD]
      else if r < 0x10000
        then [char_of (0xE0 + r div 4096), char_of (0x80 + r div 64 mod 64), char_of (0x80 + r mod 64)]
      else [char_of (0xF0 + r div 262144), char_of (0x80 + r div 4096 mod 64),
            char_of (0x80 + r div 64 mod 64), char_of (0x80 + r mod 64)])"

text \<open>\<open>getu4\<close>: the value of a \<open>uXXXX\<close> escape at the start of the text, if there is one.\<close>

definition hex_nat :: "char \<Rightarrow> nat option" where
  "hex_nat c = map_option unat (hex_value c)"

fun getu4 :: "string \<Rightarrow> nat option" where
  "getu4 (b # u # h1 # h2 # h3 # h4 # _) =
     (if b = bslash \<and> u = CHR ''u'' then
        (case (hex_nat h1, hex_nat h2, hex_nat h3, hex_nat h4) of
           (Some a, Some b, Some c, Some d) \<Rightarrow> Some (((a * 16 + b) * 16 + c) * 16 + d)
         | _ \<Rightarrow> None)
      else None)"
| "getu4 _ = None"

definition is_surrogate :: "nat \<Rightarrow> bool" where
  "is_surrogate r \<longleftrightarrow> 0xD800 \<le> r \<and> r < 0xE000"

text \<open>\<open>utf16.DecodeRune\<close>, \<open>None\<close> when the two halves are not a surrogate pair.\<close>

definition utf16_pair :: "nat \<Rightarrow> nat option \<Rightarrow> nat option" where
  "utf16_pair r1 r2 =
     (case r2 of
        None \<Rightarrow> None
      | Some r2 \<Rightarrow>
          if 0xD800 \<le> r1 \<and> r1 < 0xDC00 \<and> 0xDC00 \<le> r2 \<and> r2 < 0xE000
          then Some ((r1 - 0xD800) * 1024 + (r2 - 0xDC00) + 0x10000) else None)"

definition unescape_char :: "char \<Rightarrow> char" where
  "unescape_char c =
     (if c = CHR ''b'' then CHR 0x08 else if c = CHR ''f'' then CHR 0x0C
      else if c = CHR ''n'' then CHR 0x0A else if c = CHR ''r'' then CHR 0x0D
      else if c = CHR ''t'' then CHR 0x09 else c)"

text \<open>
  \<open>unquote\<close> on the text between the quotes of a literal the scanner accepted: escapes are
  decoded, a lone surrogate and every invalid UTF-8 byte become U+FFFD.
\<close>

function unquote :: "string \<Rightarrow> string" where
  "unquote [] = []"
| "unquote (c # s) =
     (if c = bslash then
        (case s of
           [] \<Rightarrow> []
         | e # t \<Rightarrow>
             if e = CHR ''u'' then
               (case getu4 (c # s) of
                  None \<Rightarrow> []
                | Some r \<Rightarrow>
                    (if is_surrogate r then
                       (case utf16_pair r (getu4 (drop 5 s)) of
                          Some p \<Rightarrow> encode_rune p @ unquote (drop 11 s)
                        | None \<Rightarrow> encode_rune rune_error @ unquote (drop 5 s))
                     else encode_rune r @ unquote (drop 5 s)))
             else unescape_char e # unquote t)
      else if ord c < 0x80 then c # unquote s
      else (case decode_rune (c # s) of
              (r, n) \<Rightarrow> encode_rune r @ unquote (drop n (c # s))))"
  by pat_completeness auto
termination
proof (relation "measure length")
  fix c s x r n
  assume "(r, n) = decode_rune (c # s)"
  then have "0 < n" by (metis decode_rune_width_pos)
  then show "(drop n (c # s), c # s) \<in> measure length" by simp
qed simp_all

declare unquote.simps(2) [simp del]

definition plain_char :: "char \<Rightarrow> bool" where
  "plain_char c \<longleftrightarrow> 0x20 \<le> ord c \<and> ord c < 0x80 \<and> c \<noteq> dquote \<and> c \<noteq> bslash"

abbreviation plain :: "string \<Rightarrow> bool" where
  "plain s \<equiv> list_all plain_char s"

lemma unquote_plain_Cons [simp]: "plain_char c \<Longrightarrow> unquote (c # s) = c # unquote s"
  by (simp add: unquote.simps(2) plain_char_def)

lemma unquote_plain: "plain s \<Longrightarrow> unquote s = s"
  by (induction s) simp_all

text \<open>
  \<open>appendString\<close> of the encoder with HTML escaping on, as \<open>json.Marshal\<close> calls it.
\<close>

definition hex_nibble :: "nat \<Rightarrow> char" where
  "hex_nibble n = hex_digits ! (n mod 16)"

definition escape_u :: "nat \<Rightarrow> string" where
  "escape_u r =
     [bslash, CHR ''u'', hex_nibble (r div 4096), hex_nibble (r div 256),
      hex_nibble (r div 16), hex_nibble r]"

definition html_safe :: "char \<Rightarrow> bool" where
  "html_safe c \<longleftrightarrow> plain_char c \<and> c \<noteq> CHR ''<'' \<and> c \<noteq> CHR ''>'' \<and> c \<noteq> CHR ''&''"

definition escape_ascii :: "char \<Rightarrow> string" where
  "escape_ascii c =
     (if html_safe c then [c]
      else if c = bslash \<or> c = dquote then [bslash, c]
      else if c = CHR 0x08 then [bslash, CHR ''b''] else if c = CHR 0x0C then [bslash, CHR ''f'']
      else if c = CHR 0x0A then [bslash, CHR ''n''] else if c = CHR 0x0D then [bslash, CHR ''r'']
      else if c = CHR 0x09 then [bslash, CHR ''t'']
      else escape_u (ord c))"

definition escape_rune :: "nat \<times> string \<Rightarrow> string" where
  "escape_rune x =
     (case x of
        (r, bs) \<Rightarrow>
          if r < 0x80 then escape_ascii (char_of r)
          else if r = rune_error \<and> length bs = 1 then escape_u rune_error
          else if r = 0x2028 \<or> r = 0x2029 then escape_u r
          else bs)"

definition quote :: "string \<Rightarrow> string" where
  "quote s = [dquote] @ concat (map escape_rune (runes s)) @ [dquote]"

lemma quote_safe: "list_all html_safe s \<Longrightarrow> quote s = [dquote] @ s @ [dquote]"
proof -
  have "concat (map escape_rune (runes s)) = s" if "list_all html_safe s" for s
    using that
    by (induction s) (simp_all add: html_safe_def plain_char_def escape_rune_def escape_ascii_def)
  then show "list_all html_safe s \<Longrightarrow> quote s = [dquote] @ s @ [dquote]" by (simp add: quote_def)
qed

section \<open>The scanner\<close>

text \<open>
  The frames are the scanner's \<open>parseState\<close> stack, with what has been read so far:
  \<open>InArray vs\<close> is \<open>parseArrayValue\<close>, \<open>InKey ms\<close> is \<open>parseObjectKey\<close> (and, in the state
  \<open>EndValue\<close>, an object whose last member is complete), \<open>InMember ms k\<close> is \<open>parseObjectValue\<close>
  with the key \<open>k\<close> read and its value outstanding.
\<close>

datatype frame =
    InArray "json list"
  | InKey "(string \<times> json) list"
  | InMember "(string \<times> json) list" string

datatype num_state = Neg | Num0 | Num1 | Dot | Dot0 | NumE | NumESign | NumE0

datatype scan_state =
    BeginValue | BeginValueOrEmpty | BeginString | BeginStringOrEmpty
  | InString string | InStringEsc string | InStringEscU string nat
  | InNumber num_state string
  | InLiteral string json
  | EndKey string
  | EndValue

text \<open>
  What one byte does: go on, complete the top-level value with this byte, complete it before
  this byte (which only a number does), or a syntax error.
\<close>

datatype scan_out = Continue scan_state "frame list" | Complete json | CompleteBefore json | Bad

definition maxNestingDepth :: nat where
  "maxNestingDepth = 10000"

definition json_space :: "char \<Rightarrow> bool" where
  "json_space c \<longleftrightarrow> c = CHR '' '' \<or> c = CHR 0x09 \<or> c = CHR 0x0D \<or> c = CHR 0x0A"

definition push_frame :: "frame \<Rightarrow> scan_state \<Rightarrow> frame list \<Rightarrow> scan_out" where
  "push_frame f st stk =
     (if Suc (length stk) \<le> maxNestingDepth then Continue st (f # stk) else Bad)"

fun deliver :: "json \<Rightarrow> frame list \<Rightarrow> scan_out" where
  "deliver v [] = Complete v"
| "deliver v (InArray vs # stk) = Continue EndValue (InArray (vs @ [v]) # stk)"
| "deliver v (InMember ms k # stk) = Continue EndValue (InKey (ms @ [(k, v)]) # stk)"
| "deliver v (InKey ms # stk) = Bad"

fun end_string :: "string \<Rightarrow> frame list \<Rightarrow> scan_out" where
  "end_string raw (InKey ms # stk) = Continue (EndKey (unquote raw)) (InKey ms # stk)"
| "end_string raw stk = deliver (JStr (unquote raw)) stk"

fun end_value :: "char \<Rightarrow> frame list \<Rightarrow> scan_out" where
  "end_value c (InArray vs # stk) =
     (if json_space c then Continue EndValue (InArray vs # stk)
      else if c = CHR '','' then Continue BeginValue (InArray vs # stk)
      else if c = CHR '']'' then deliver (JArr vs) stk
      else Bad)"
| "end_value c (InKey ms # stk) =
     (if json_space c then Continue EndValue (InKey ms # stk)
      else if c = CHR '','' then Continue BeginString (InKey ms # stk)
      else if c = CHR ''}'' then deliver (JObj ms) stk
      else Bad)"
| "end_value c _ = Bad"

definition begin_value :: "char \<Rightarrow> frame list \<Rightarrow> scan_out" where
  "begin_value c stk =
     (if json_space c then Continue BeginValue stk
      else if c = CHR ''{'' then push_frame (InKey []) BeginStringOrEmpty stk
      else if c = CHR ''['' then push_frame (InArray []) BeginValueOrEmpty stk
      else if c = dquote then Continue (InString []) stk
      else if c = CHR ''-'' then Continue (InNumber Neg [c]) stk
      else if c = CHR ''0'' then Continue (InNumber Num0 [c]) stk
      else if c = CHR ''t'' then Continue (InLiteral ''rue'' (JBool True)) stk
      else if c = CHR ''f'' then Continue (InLiteral ''alse'' (JBool False)) stk
      else if c = CHR ''n'' then Continue (InLiteral ''ull'' JNull) stk
      else if is_digit c then Continue (InNumber Num1 [c]) stk
      else Bad)"

definition begin_string :: "char \<Rightarrow> frame list \<Rightarrow> scan_out" where
  "begin_string c stk =
     (if json_space c then Continue BeginString stk
      else if c = dquote then Continue (InString []) stk
      else Bad)"

definition exponent_char :: "char \<Rightarrow> bool" where
  "exponent_char c \<longleftrightarrow> c = CHR ''e'' \<or> c = CHR ''E''"

text \<open>How a number goes on; \<open>None\<close> ends it (in the accepting states) or is an error.\<close>

fun num_next :: "num_state \<Rightarrow> char \<Rightarrow> num_state option" where
  "num_next Neg c = (if c = CHR ''0'' then Some Num0 else if is_digit c then Some Num1 else None)"
| "num_next Num1 c =
     (if is_digit c then Some Num1 else if c = CHR ''.'' then Some Dot
      else if exponent_char c then Some NumE else None)"
| "num_next Num0 c = (if c = CHR ''.'' then Some Dot else if exponent_char c then Some NumE else None)"
| "num_next Dot c = (if is_digit c then Some Dot0 else None)"
| "num_next Dot0 c = (if is_digit c then Some Dot0 else if exponent_char c then Some NumE else None)"
| "num_next NumE c =
     (if c = CHR ''+'' \<or> c = CHR ''-'' then Some NumESign else if is_digit c then Some NumE0 else None)"
| "num_next NumESign c = (if is_digit c then Some NumE0 else None)"
| "num_next NumE0 c = (if is_digit c then Some NumE0 else None)"

definition num_accepting :: "num_state \<Rightarrow> bool" where
  "num_accepting n \<longleftrightarrow> n = Num0 \<or> n = Num1 \<or> n = Dot0 \<or> n = NumE0"

fun end_number :: "string \<Rightarrow> char \<Rightarrow> frame list \<Rightarrow> scan_out" where
  "end_number numtext c [] = CompleteBefore (JNum numtext)"
| "end_number numtext c stk =
     (case deliver (JNum numtext) stk of Continue _ stk' \<Rightarrow> end_value c stk' | _ \<Rightarrow> Bad)"

definition escape_letter :: "char \<Rightarrow> bool" where
  "escape_letter c \<longleftrightarrow> c \<in> {CHR ''b'', CHR ''f'', CHR ''n'', CHR ''r'', CHR ''t'', bslash, CHR ''/'', dquote}"

fun scan_step :: "scan_state \<Rightarrow> frame list \<Rightarrow> char \<Rightarrow> scan_out" where
  "scan_step BeginValue stk c = begin_value c stk"
| "scan_step BeginValueOrEmpty stk c =
     (if json_space c then Continue BeginValueOrEmpty stk
      else if c = CHR '']'' then end_value c stk
      else begin_value c stk)"
| "scan_step BeginString stk c = begin_string c stk"
| "scan_step BeginStringOrEmpty stk c =
     (if json_space c then Continue BeginStringOrEmpty stk
      else if c = CHR ''}'' then end_value c stk
      else begin_string c stk)"
| "scan_step (InString raw) stk c =
     (if c = dquote then end_string raw stk
      else if c = bslash then Continue (InStringEsc (raw @ [c])) stk
      else if ord c < 0x20 then Bad
      else Continue (InString (raw @ [c])) stk)"
| "scan_step (InStringEsc raw) stk c =
     (if escape_letter c then Continue (InString (raw @ [c])) stk
      else if c = CHR ''u'' then Continue (InStringEscU (raw @ [c]) 3) stk
      else Bad)"
| "scan_step (InStringEscU raw n) stk c =
     (if hex_value c = None then Bad
      else if n = 0 then Continue (InString (raw @ [c])) stk
      else Continue (InStringEscU (raw @ [c]) (n - 1)) stk)"
| "scan_step (InNumber n numtext) stk c =
     (case num_next n c of
        Some n' \<Rightarrow> Continue (InNumber n' (numtext @ [c])) stk
      | None \<Rightarrow> if num_accepting n then end_number numtext c stk else Bad)"
| "scan_step (InLiteral [] v) stk c = Bad"
| "scan_step (InLiteral (d # ds) v) stk c =
     (if c \<noteq> d then Bad else if ds = [] then deliver v stk else Continue (InLiteral ds v) stk)"
| "scan_step (EndKey k) stk c =
     (if json_space c then Continue (EndKey k) stk
      else if c = CHR '':'' then
        (case stk of InKey ms # stk' \<Rightarrow> Continue BeginValue (InMember ms k # stk') | _ \<Rightarrow> Bad)
      else Bad)"
| "scan_step EndValue stk c = end_value c stk"

text \<open>
  \<open>Decoder.readValue\<close>: the first value of the input and what follows it, \<open>None\<close> for a syntax
  error or an input that ends inside the value. A number at the end of the input is complete.
\<close>

fun scan_json :: "scan_state \<Rightarrow> frame list \<Rightarrow> string \<Rightarrow> (json \<times> string) option" where
  "scan_json st stk [] =
     (case st of
        InNumber n numtext \<Rightarrow> if num_accepting n \<and> stk = [] then Some (JNum numtext, []) else None
      | _ \<Rightarrow> None)"
| "scan_json st stk (c # cs) =
     (case scan_step st stk c of
        Continue st' stk' \<Rightarrow> scan_json st' stk' cs
      | Complete v \<Rightarrow> Some (v, cs)
      | CompleteBefore v \<Rightarrow> Some (v, c # cs)
      | Bad \<Rightarrow> None)"

definition Decode :: "string \<Rightarrow> (json \<times> string) option" where
  "Decode s = scan_json BeginValue [] s"

text \<open>
  Only white space is left: the next \<open>Decode\<close> returns \<open>io.EOF\<close>. With anything else left it
  returns a value or another error.
\<close>

definition at_eof :: "string \<Rightarrow> bool" where
  "at_eof s \<longleftrightarrow> list_all json_space s"

text \<open>\<open>json.Unmarshal\<close>'s validity check: one value and white space only.\<close>

definition parse_json :: "string \<Rightarrow> json option" where
  "parse_json s = (case Decode s of Some (v, r) \<Rightarrow> if at_eof r then Some v else None | None \<Rightarrow> None)"

lemmas json_eval =
  parse_json_def Decode_def at_eof_def begin_value_def begin_string_def json_space_def
  push_frame_def maxNestingDepth_def is_digit_def exponent_char_def num_accepting_def
  plain_char_def escape_letter_def

section \<open>Printing and scanning\<close>

text \<open>
  The compact text of a value whose strings need no escapes. The scanner reads it back; the
  facts below are what the protocol and configuration theories use of the scanner.
\<close>

definition member_text :: "string \<Rightarrow> string \<Rightarrow> string" where
  "member_text k v = [dquote] @ k @ [dquote, CHR '':''] @ v"

fun comma_tail :: "string list \<Rightarrow> string" where
  "comma_tail [] = []"
| "comma_tail (x # xs) = CHR '','' # x @ comma_tail xs"

fun comma_list :: "string list \<Rightarrow> string" where
  "comma_list [] = []"
| "comma_list (x # xs) = x @ comma_tail xs"

fun render :: "json \<Rightarrow> string" where
  "render JNull = ''null''"
| "render (JBool b) = (if b then ''true'' else ''false'')"
| "render (JNum numtext) = numtext"
| "render (JStr s) = [dquote] @ s @ [dquote]"
| "render (JArr vs) = ''['' @ comma_list (map render vs) @ '']''"
| "render (JObj ms) = ''{'' @ comma_list (map (\<lambda>(k, v). member_text k (render v)) ms) @ ''}''"

definition num_start :: "char \<Rightarrow> num_state option" where
  "num_start c =
     (if c = CHR ''-'' then Some Neg else if c = CHR ''0'' then Some Num0
      else if is_digit c then Some Num1 else None)"

fun num_run :: "num_state \<Rightarrow> string \<Rightarrow> num_state option" where
  "num_run n [] = Some n"
| "num_run n (c # s) = (case num_next n c of None \<Rightarrow> None | Some m \<Rightarrow> num_run m s)"

definition number_text :: "string \<Rightarrow> bool" where
  "number_text numtext \<longleftrightarrow>
     (case numtext of
        [] \<Rightarrow> False
      | c # s \<Rightarrow>
          (case num_start c of
             None \<Rightarrow> False
           | Some n \<Rightarrow> (case num_run n s of None \<Rightarrow> False | Some m \<Rightarrow> num_accepting m)))"

fun plain_json :: "json \<Rightarrow> bool" where
  "plain_json (JNum numtext) = number_text numtext"
| "plain_json (JStr s) = plain s"
| "plain_json (JArr vs) = (\<forall>v \<in> set vs. plain_json v)"
| "plain_json (JObj ms) = (\<forall>(k, v) \<in> set ms. plain k \<and> plain_json v)"
| "plain_json _ = True"

fun nesting :: "json \<Rightarrow> nat" where
  "nesting (JArr vs) = Suc (Max (insert 0 (nesting ` set vs)))"
| "nesting (JObj ms) = Suc (Max (insert 0 ((\<lambda>(k, v). nesting v) ` set ms)))"
| "nesting _ = 0"

definition resume :: "scan_out \<Rightarrow> string \<Rightarrow> (json \<times> string) option" where
  "resume out s =
     (case out of
        Continue st stk \<Rightarrow> scan_json st stk s
      | Complete v \<Rightarrow> Some (v, s)
      | _ \<Rightarrow> None)"

lemma resume_simps [simp]:
  "resume (Continue st stk) s = scan_json st stk s"
  "resume (Complete v) s = Some (v, s)"
  "resume Bad s = None"
  by (simp_all add: resume_def)

lemma deliver_not_before [simp]: "deliver v stk \<noteq> CompleteBefore u"
  by (cases "(v, stk)" rule: deliver.cases) simp_all

lemma scan_plain: "plain w \<Longrightarrow> scan_json (InString raw) stk (w @ s) = scan_json (InString (raw @ w)) stk s"
  by (induction w arbitrary: raw) (simp_all add: plain_char_def)

definition value_stack :: "frame list \<Rightarrow> bool" where
  "value_stack stk \<longleftrightarrow> (case stk of InKey ms # _ \<Rightarrow> False | _ \<Rightarrow> True)"

lemma end_string_value: "value_stack stk \<Longrightarrow> end_string raw stk = deliver (JStr (unquote raw)) stk"
  by (cases "(raw, stk)" rule: end_string.cases) (simp_all add: value_stack_def)

lemma scan_string_value:
  "value_stack stk \<Longrightarrow> plain w \<Longrightarrow>
   scan_json BeginValue stk ([dquote] @ w @ [dquote] @ s) = resume (deliver (JStr w) stk) s"
  by (simp add: begin_value_def json_space_def scan_plain end_string_value unquote_plain
      resume_def split: scan_out.split)

lemma scan_key:
  assumes "plain k"
  shows "scan_json BeginString (InKey ms # stk) (member_text k v @ s) =
      scan_json BeginValue (InMember ms k # stk) (v @ s)"
    "scan_json BeginStringOrEmpty (InKey ms # stk) (member_text k v @ s) =
      scan_json BeginValue (InMember ms k # stk) (v @ s)"
  using assms
  by (simp_all add: member_text_def begin_string_def json_space_def scan_plain unquote_plain)

text \<open>Numbers end at the byte after them, which is a delimiter inside arrays and objects.\<close>

definition before_delim :: "string \<Rightarrow> bool" where
  "before_delim r \<longleftrightarrow> (case r of [] \<Rightarrow> False | c # _ \<Rightarrow> c \<in> {CHR '','', CHR '']'', CHR ''}''})"

lemma scan_number_run:
  "num_run n s = Some m \<Longrightarrow>
   scan_json (InNumber n numtext) stk (s @ r) = scan_json (InNumber m (numtext @ s)) stk r"
  by (induction n s arbitrary: numtext rule: num_run.induct) (auto split: option.splits)

lemma num_next_delim: "before_delim (c # r) \<Longrightarrow> num_accepting n \<Longrightarrow> num_next n c = None"
  by (cases n) (auto simp: before_delim_def num_accepting_def is_digit_def exponent_char_def)

lemma end_value_not_before [simp]: "end_value c stk \<noteq> CompleteBefore u"
  by (cases "(c, stk)" rule: end_value.cases) simp_all

lemma scan_number_end:
  assumes "num_accepting n" "before_delim r" "value_stack stk"
  shows "scan_json (InNumber n numtext) stk r = resume (deliver (JNum numtext) stk) r"
proof -
  from assms(2) obtain c t where r: "r = c # t" by (auto simp: before_delim_def split: list.splits)
  with assms have step: "scan_step (InNumber n numtext) stk c = end_number numtext c stk"
    by (simp add: num_next_delim)
  show ?thesis
  proof (cases stk)
    case Nil
    with r step show ?thesis by simp
  next
    case (Cons f stk')
    with assms(3) obtain stk'' where d: "deliver (JNum numtext) stk = Continue EndValue stk''"
      by (cases f) (auto simp: value_stack_def)
    with r step Cons show ?thesis by simp
  qed
qed

lemma digit_begins:
  "is_digit c \<Longrightarrow> \<not> json_space c \<and> c \<notin> {CHR ''{'', CHR ''['', CHR '']'', dquote, CHR ''-'', CHR ''t'', CHR ''f'', CHR ''n''}"
  by (auto simp: is_digit_def json_space_def)

lemma num_start_begins: "num_start c = Some n \<Longrightarrow> begin_value c stk = Continue (InNumber n [c]) stk"
  using digit_begins [of c]
  by (auto simp: num_start_def begin_value_def json_space_def split: if_splits)

lemma scan_number:
  assumes "number_text numtext" "before_delim r" "value_stack stk"
  shows "scan_json BeginValue stk (numtext @ r) = resume (deliver (JNum numtext) stk) r"
proof -
  from assms(1) obtain c s n m where t: "numtext = c # s" "num_start c = Some n"
      "num_run n s = Some m" and m: "num_accepting m"
    by (auto simp: number_text_def split: list.splits option.splits)
  from t have "scan_json BeginValue stk (numtext @ r) = scan_json (InNumber m numtext) stk r"
    by (simp add: scan_number_run num_start_begins)
  with m assms(2,3) show ?thesis by (simp only: scan_number_end)
qed

lemma digits_run: "list_all is_digit s \<Longrightarrow> num_run Num1 s = Some Num1"
  by (induction s) simp_all

text \<open>The text of a printed value starts with a byte that begins a value.\<close>

lemma number_text_first:
  assumes "number_text numtext"
  obtains c t where "numtext = c # t" "\<not> json_space c" "c \<noteq> CHR '']''"
proof -
  from assms obtain c t n where t: "numtext = c # t" "num_start c = Some n"
    by (auto simp: number_text_def split: list.splits option.splits)
  then have "c = CHR ''-'' \<or> is_digit c"
    by (auto simp: num_start_def is_digit_def split: if_splits)
  with t that digit_begins [of c] show ?thesis by (auto simp: json_space_def)
qed

lemma render_first:
  assumes "plain_json v"
  obtains c t where "render v = c # t" "\<not> json_space c" "c \<noteq> CHR '']''"
proof (cases v)
  case (JNum numtext)
  with assms have "number_text numtext" by simp
  then obtain c t where "numtext = c # t" "\<not> json_space c" "c \<noteq> CHR '']''"
    by (rule number_text_first)
  with JNum that show ?thesis by simp
next
  case (JBool b)
  then show ?thesis using that by (cases b) (auto simp: json_space_def)
qed (use that in \<open>auto simp: json_space_def split: if_splits\<close>)

lemma scan_or_empty:
  assumes "plain_json v"
  shows "scan_json BeginValueOrEmpty stk (render v @ r) = scan_json BeginValue stk (render v @ r)"
proof -
  from assms obtain c t where "render v = c # t" "\<not> json_space c" "c \<noteq> CHR '']''"
    by (rule render_first)
  then show ?thesis by simp
qed

lemma before_delim_tail [simp]:
  "before_delim (comma_tail xs @ CHR '']'' # r)"
  "before_delim (comma_tail xs @ CHR ''}'' # r)"
  by (cases xs; simp add: before_delim_def)+

lemma value_stack_simps [simp]:
  "value_stack []" "value_stack (InArray vs # stk)" "value_stack (InMember ms k # stk)"
  by (simp_all add: value_stack_def)

text \<open>What the induction over values provides for an element of an array or an object.\<close>

definition scans :: "nat \<Rightarrow> json \<Rightarrow> bool" where
  "scans n v \<longleftrightarrow> (\<forall>stk r. length stk = n \<longrightarrow> value_stack stk \<longrightarrow> before_delim r \<longrightarrow>
     scan_json BeginValue stk (render v @ r) = resume (deliver v stk) r)"

lemma scan_elements:
  assumes "\<forall>v \<in> set vs. scans (Suc (length stk)) v"
  shows "scan_json EndValue (InArray us # stk)
      (comma_tail (map render vs) @ CHR '']'' # r) =
    resume (deliver (JArr (us @ vs)) stk) r"
  using assms
proof (induction vs arbitrary: us)
  case Nil
  then show ?case by (simp add: json_space_def resume_def split: scan_out.split)
next
  case (Cons v vs)
  from Cons.prems have "scans (Suc (length stk)) v" by simp
  with Cons show ?case by (simp add: json_space_def scans_def)
qed

lemma scan_members:
  assumes "\<forall>(k, v) \<in> set ms. plain k \<and> scans (Suc (length stk)) v"
  shows "scan_json EndValue (InKey us # stk)
      (comma_tail (map (\<lambda>(k, v). member_text k (render v)) ms) @ CHR ''}'' # r) =
    resume (deliver (JObj (us @ ms)) stk) r"
  using assms
proof (induction ms arbitrary: us)
  case Nil
  then show ?case by (simp add: json_space_def resume_def split: scan_out.split)
next
  case (Cons m ms)
  obtain k v where m: "m = (k, v)" by force
  from Cons.prems m have "scans (Suc (length stk)) v" "plain k" by auto
  with Cons m show ?case by (simp add: json_space_def scans_def scan_key)
qed

text \<open>The scanner reads a printed value back and hands it to the innermost open frame.\<close>

lemma nesting_element: "v \<in> set vs \<Longrightarrow> nesting v < nesting (JArr vs)"
  by (simp add: less_Suc_eq_le)

lemma nesting_member: "(k, v) \<in> set ms \<Longrightarrow> nesting v < nesting (JObj ms)"
proof -
  assume "(k, v) \<in> set ms"
  then have "nesting v \<in> (\<lambda>(k, v). nesting v) ` set ms" by force
  then show ?thesis by (simp add: less_Suc_eq_le)
qed

declare nesting.simps [simp del]

lemma scan_array:
  assumes "\<forall>v \<in> set vs. plain_json v \<and> scans (Suc (length stk)) v" "length stk < maxNestingDepth"
  shows "scan_json BeginValue stk (''['' @ comma_list (map render vs) @ CHR '']'' # r) =
    resume (deliver (JArr vs) stk) r"
proof -
  from assms(2) have "scan_json BeginValue stk (''['' @ comma_list (map render vs) @ CHR '']'' # r) =
      scan_json BeginValueOrEmpty (InArray [] # stk) (comma_list (map render vs) @ CHR '']'' # r)"
    by (simp add: begin_value_def json_space_def push_frame_def)
  also have "\<dots> = resume (deliver (JArr vs) stk) r"
  proof (cases vs)
    case Nil
    then show ?thesis by (simp add: json_space_def resume_def split: scan_out.split)
  next
    case (Cons v us)
    with assms(1) have "plain_json v" "scans (Suc (length stk)) v" by auto
    moreover from Cons assms(1) have "\<forall>v \<in> set us. scans (Suc (length stk)) v" by simp
    ultimately show ?thesis
      using Cons scan_elements [of us stk "[v]" r] by (simp add: scan_or_empty scans_def)
  qed
  finally show ?thesis .
qed

lemma scan_object:
  assumes "\<forall>(k, v) \<in> set ms. plain k \<and> scans (Suc (length stk)) v" "length stk < maxNestingDepth"
  shows "scan_json BeginValue stk
      (''{'' @ comma_list (map (\<lambda>(k, v). member_text k (render v)) ms) @ CHR ''}'' # r) =
    resume (deliver (JObj ms) stk) r"
proof -
  let ?text = "comma_list (map (\<lambda>(k, v). member_text k (render v)) ms) @ CHR ''}'' # r"
  from assms(2) have "scan_json BeginValue stk (''{'' @ ?text) =
      scan_json BeginStringOrEmpty (InKey [] # stk) ?text"
    by (simp add: begin_value_def json_space_def push_frame_def)
  also have "\<dots> = resume (deliver (JObj ms) stk) r"
  proof (cases ms)
    case Nil
    then show ?thesis by (simp add: json_space_def resume_def split: scan_out.split)
  next
    case (Cons m us)
    obtain k v where m: "m = (k, v)" by force
    with Cons assms(1) have "plain k" "scans (Suc (length stk)) v" by auto
    moreover from Cons assms(1) have "\<forall>(k, v) \<in> set us. plain k \<and> scans (Suc (length stk)) v" by simp
    ultimately show ?thesis
      using Cons m scan_members [of us stk "[(k, v)]" r] by (simp add: scan_key scans_def)
  qed
  finally show ?thesis by simp
qed

lemma scan_render: "plain_json v \<Longrightarrow> n + nesting v \<le> maxNestingDepth \<Longrightarrow> scans n v"
proof (induction v arbitrary: n)
  case JNull
  show ?case by (simp add: scans_def begin_value_def json_space_def resume_def split: scan_out.split)
next
  case (JBool b)
  show ?case
    by (cases b) (simp_all add: scans_def begin_value_def json_space_def resume_def split: scan_out.split)
next
  case (JNum numtext)
  then show ?case by (simp add: scans_def scan_number)
next
  case (JStr s)
  then show ?case using scan_string_value by (simp add: scans_def)
next
  case (JArr vs)
  have "plain_json v \<and> scans (Suc n) v" if "v \<in> set vs" for v
    using JArr that nesting_element [OF that] by simp
  moreover have "n < maxNestingDepth" using JArr.prems by (simp add: nesting.simps)
  ultimately show ?case using scan_array by (simp add: scans_def)
next
  case (JObj ms)
  have "\<forall>(k, v) \<in> set ms. plain k \<and> scans (Suc n) v"
  proof clarify
    fix k v assume m: "(k, v) \<in> set ms"
    with JObj.prems nesting_member [OF m] JObj.IH [OF m] show "plain k \<and> scans (Suc n) v"
      by auto
  qed
  moreover have "n < maxNestingDepth" using JObj.prems by (simp add: nesting.simps)
  ultimately show ?case by (simp only: scans_def [of n] render.simps append.simps append_assoc)
    (auto dest: scan_object)
qed

text \<open>At the top level: \<open>json.Unmarshal\<close> of the printed text of an array or an object, and \<open>Decode\<close>
  with any input after it.\<close>

fun composite :: "json \<Rightarrow> bool" where
  "composite (JArr vs) = True"
| "composite (JObj ms) = True"
| "composite _ = False"

lemma Decode_render:
  assumes "plain_json v" "composite v" "nesting v \<le> maxNestingDepth"
  shows "Decode (render v @ r) = Some (v, r)"
proof (cases v)
  case (JArr vs)
  have "plain_json u \<and> scans (Suc 0) u" if "u \<in> set vs" for u
    using assms JArr that nesting_element [OF that] by (simp add: scan_render)
  with assms(3) JArr have "scan_json BeginValue [] (''['' @ comma_list (map render vs) @ CHR '']'' # r)
      = resume (deliver (JArr vs) []) r"
    by (intro scan_array) (auto simp: nesting.simps)
  with JArr show ?thesis by (simp only: Decode_def render.simps append.simps append_assoc
        deliver.simps resume_simps)
next
  case (JObj ms)
  have "\<forall>(k, u) \<in> set ms. plain k \<and> scans (Suc 0) u"
  proof clarify
    fix k u assume m: "(k, u) \<in> set ms"
    with assms JObj nesting_member [OF m] have "plain k" "plain_json u" "Suc 0 + nesting u \<le> maxNestingDepth"
      by auto
    then show "plain k \<and> scans (Suc 0) u" by (simp only: scan_render simp_thms)
  qed
  with assms(3) JObj have "scan_json BeginValue []
      (''{'' @ comma_list (map (\<lambda>(k, v). member_text k (render v)) ms) @ CHR ''}'' # r)
      = resume (deliver (JObj ms) []) r"
    by (intro scan_object) (auto simp: nesting.simps)
  with JObj show ?thesis by (simp only: Decode_def render.simps append.simps append_assoc
        deliver.simps resume_simps)
qed (use assms(2) in simp_all)

lemma at_eof_Nil [simp]: "at_eof []"
  by (simp add: at_eof_def)

lemma parse_json_render:
  assumes "plain_json v" "composite v" "nesting v \<le> maxNestingDepth"
  shows "parse_json (render v) = Some v"
  using Decode_render [OF assms, of "[]"] by (simp add: parse_json_def)

lemma number_text_Itoa: "number_text (Itoa n)"
proof (cases "n = 0")
  case True
  then show ?thesis
    by (simp add: Itoa_small digit_char_0 number_text_def num_start_def num_accepting_def)
next
  case False
  obtain c s where cs: "Itoa n = c # s" "is_digit c" "list_all is_digit s"
    using Itoa_digits [of n] by (cases "Itoa n") (auto simp: all_digits_def simp del: Itoa_digits)
  have "c \<noteq> CHR ''0''"
    using Itoa_hd [of n] False cs(1) by (metis list.sel(1))
  with cs show ?thesis
    by (auto simp: number_text_def num_start_def num_accepting_def digits_run is_digit_def)
qed

section \<open>Objects as structs and as maps\<close>

text \<open>
  A member of an object is decoded into the field with exactly its key, or else into the first
  field with the same folded name. Folding maps letters to upper case, and the Kelvin sign and
  the long s to the letters they fold to; folding of other runes is left out because the field
  names are ASCII, where no other rune folds to.
\<close>

definition fold_rune :: "nat \<Rightarrow> nat" where
  "fold_rune r =
     (if 97 \<le> r \<and> r \<le> 122 then r - 32 else if r = 0x212A then 75 else if r = 0x17F then 83 else r)"

definition foldName :: "string \<Rightarrow> nat list" where
  "foldName s = map (fold_rune \<circ> fst) (runes s)"

definition field_of :: "string list \<Rightarrow> string \<Rightarrow> string option" where
  "field_of fields key =
     (if key \<in> set fields then Some key else find (\<lambda>f. foldName f = foldName key) fields)"

lemma field_of_exact [simp]: "key \<in> set fields \<Longrightarrow> field_of fields key = Some key"
  by (simp add: field_of_def)

lemma field_of_in: "field_of fields key = Some f \<Longrightarrow> f \<in> set fields"
  by (auto simp: field_of_def find_Some_iff split: if_splits)

text \<open>A map \<open>map[string]json.RawMessage\<close> keeps the last member of each key.\<close>

definition raw_member :: "(string \<times> json) list \<Rightarrow> string \<rightharpoonup> json" where
  "raw_member ms = map_of (rev ms)"

lemma raw_member_distinct: "distinct (map fst ms) \<Longrightarrow> raw_member ms = map_of ms"
  unfolding raw_member_def by (rule map_of_inject_set [THEN iffD2]) (simp_all add: rev_map [symmetric])

section \<open>Scalars\<close>

text \<open>
  \<open>json.Unmarshal\<close> of a value into a \<open>string\<close> and into an unsigned integer: null leaves the
  old value, a number must be a decimal that fits, anything else is a type error.
\<close>

fun unmarshal_string :: "json \<Rightarrow> string \<Rightarrow> string option" where
  "unmarshal_string JNull old = Some old"
| "unmarshal_string (JStr s) old = Some s"
| "unmarshal_string _ old = None"

fun unmarshal_uint :: "json \<Rightarrow> 'w::len word \<Rightarrow> 'w word option" where
  "unmarshal_uint JNull old = Some old"
| "unmarshal_uint (JNum numtext) old =
     (case ParseUint 64 numtext of
        None \<Rightarrow> None
      | Some n \<Rightarrow> if n < 2 ^ LENGTH('w) then Some (of_nat n) else None)"
| "unmarshal_uint _ old = None"

end
