(* ===== verification/Argo_Config.thy ===== *)
theory Argo_Config
  imports Go_Json
begin

text \<open>
  \<open>config.go\<close>: the configuration schema, its decoding from JSON, the defaults and the
  validation that both modes run before they use a configuration.

  \<open>Config\<close> and \<open>Endpoint\<close> are the structs, the unexported presence flags included. The nil
  slice \<open>Endpoints\<close> is \<open>None\<close>. Each \<open>fmt.Errorf\<close> of the file is a constructor of one of the
  error types. The two \<open>UnmarshalJSON\<close> methods work on a \<open>json\<close> tree; the texts of the errors
  of \<open>encoding/json\<close> are not kept.
\<close>

section \<open>Data\<close>

record Endpoint =
  Host :: string
  VsockPort :: uint32
  TCPPort :: uint16
  LocalPort :: uint16
  LocalIP :: string
  hostSet :: bool
  vsockPortSet :: bool
  tcpPortSet :: bool
  localPortSet :: bool
  localIPSet :: bool

record Config =
  SchemaVersion :: string
  HTTPPort :: uint16
  HTTPVsockPort :: uint32
  HTTPTCPPort :: uint16
  Endpoints :: "Endpoint list option"
  endpointsSet :: bool

definition zero_endpoint :: Endpoint where
  "zero_endpoint =
     \<lparr>Host = [], VsockPort = 0, TCPPort = 0, LocalPort = 0, LocalIP = [],
      hostSet = False, vsockPortSet = False, tcpPortSet = False, localPortSet = False,
      localIPSet = False\<rparr>"

definition zero_config :: Config where
  "zero_config =
     \<lparr>SchemaVersion = [], HTTPPort = 0, HTTPVsockPort = 0, HTTPTCPPort = 0,
      Endpoints = None, endpointsSet = False\<rparr>"

definition schemaVersionV01 :: string where
  "schemaVersionV01 = ''v0.1''"

definition maxConfigBytes :: nat where
  "maxConfigBytes = 1048576"

definition maxEndpoints :: nat where
  "maxEndpoints = 191"

definition defaultTCPPort :: uint16 where
  "defaultTCPPort = 443"

definition validationModeHost :: string where
  "validationModeHost = ''host''"

definition validationModeEnclave :: string where
  "validationModeEnclave = ''enclave''"

datatype json_error = NotAnObject | UnknownEndpointField | BadField string | BadConfigField

datatype parse_error = ConfigTooLarge nat | InvalidConfigJSON | TrailingConfigJSON

datatype hostname_error = InvalidRune nat | EmptyLabel | LabelTooLong

datatype endpoint_error =
    HostEmpty
  | HostTooLong
  | HostInvalid hostname_error
  | VsockPortRange
  | TCPPortRange
  | LocalPortRange
  | LocalIPEmpty
  | LocalIPNotLoopback

datatype config_error =
    ConfigNil
  | UnsupportedSchemaVersion string
  | EndpointsNotArray
  | TooManyEndpoints nat
  | HTTPPortRange
  | HTTPVsockPortRange
  | HTTPTCPPortRange
  | UnknownMode string
  | BadEndpoint nat endpoint_error
  | DuplicateHost nat nat
  | DuplicateVsockPort nat nat
  | DuplicateLocalAddr nat nat

section \<open>Decoding\<close>

text \<open>\<open>map[string]json.RawMessage\<close>: null is the nil map.\<close>

fun unmarshal_raw :: "json \<Rightarrow> (string \<times> json) list option" where
  "unmarshal_raw JNull = Some []"
| "unmarshal_raw (JObj ms) = Some ms"
| "unmarshal_raw _ = None"

definition endpoint_keys :: "string list" where
  "endpoint_keys = [''host'', ''vsockPort'', ''tcpPort'', ''localPort'', ''localIP'']"

text \<open>One \<open>if v, ok := raw[key]; ok { ... }\<close> of \<open>Endpoint.UnmarshalJSON\<close>.\<close>

definition raw_field ::
  "(string \<rightharpoonup> json) \<Rightarrow> string \<Rightarrow> (json \<Rightarrow> Endpoint \<Rightarrow> Endpoint option) \<Rightarrow> Endpoint \<Rightarrow> json_error + Endpoint"
where
  "raw_field raw key store e =
     (case raw key of
        None \<Rightarrow> Inr e
      | Some v \<Rightarrow> from_option (BadField key) (store v e))"

definition store_host :: "json \<Rightarrow> Endpoint \<Rightarrow> Endpoint option" where
  "store_host v e = map_option (\<lambda>x. e\<lparr>hostSet := True, Host := x\<rparr>) (unmarshal_string v (Host e))"

definition store_vsockPort :: "json \<Rightarrow> Endpoint \<Rightarrow> Endpoint option" where
  "store_vsockPort v e =
     map_option (\<lambda>x. e\<lparr>vsockPortSet := True, VsockPort := x\<rparr>) (unmarshal_uint v (VsockPort e))"

definition store_tcpPort :: "json \<Rightarrow> Endpoint \<Rightarrow> Endpoint option" where
  "store_tcpPort v e =
     map_option (\<lambda>x. e\<lparr>tcpPortSet := True, TCPPort := x\<rparr>) (unmarshal_uint v (TCPPort e))"

definition store_localPort :: "json \<Rightarrow> Endpoint \<Rightarrow> Endpoint option" where
  "store_localPort v e =
     map_option (\<lambda>x. e\<lparr>localPortSet := True, LocalPort := x\<rparr>) (unmarshal_uint v (LocalPort e))"

definition store_localIP :: "json \<Rightarrow> Endpoint \<Rightarrow> Endpoint option" where
  "store_localIP v e =
     map_option (\<lambda>x. e\<lparr>localIPSet := True, LocalIP := x\<rparr>) (unmarshal_string v (LocalIP e))"

text \<open>
  \<open>Endpoint.UnmarshalJSON\<close> on the receiver \<open>e\<close>. With several unknown keys the code names one of
  them, in the random order of a Go map; the error here names none.
\<close>

definition Endpoint_UnmarshalJSON :: "json \<Rightarrow> Endpoint \<Rightarrow> json_error + Endpoint" where
  "Endpoint_UnmarshalJSON data e =
     rbind (from_option NotAnObject (unmarshal_raw data)) (\<lambda>ms.
     rbind (require (list_all (\<lambda>m. fst m \<in> set endpoint_keys) ms) UnknownEndpointField) (\<lambda>_.
     (let raw = raw_member ms in
      rbind (raw_field raw ''host'' store_host e) (\<lambda>e.
      rbind (raw_field raw ''vsockPort'' store_vsockPort e) (\<lambda>e.
      rbind (raw_field raw ''tcpPort'' store_tcpPort e) (\<lambda>e.
      rbind (raw_field raw ''localPort'' store_localPort e) (\<lambda>e.
      raw_field raw ''localIP'' store_localIP e)))))))"

text \<open>
  The decoder's loop over an array for \<open>[]Endpoint\<close>. Elements are decoded into the backing array
  of the slice, which keeps what an earlier decode of the same field left there; behind it the
  array is zero. The loop stops at the first element whose \<open>UnmarshalJSON\<close> fails.
\<close>

fun unmarshal_elements :: "json list \<Rightarrow> Endpoint list \<Rightarrow> json_error + Endpoint list" where
  "unmarshal_elements [] backing = Inr backing"
| "unmarshal_elements (v # vs) backing =
     (case backing of
        [] \<Rightarrow> rbind (Endpoint_UnmarshalJSON v zero_endpoint) (\<lambda>e.
              rbind (unmarshal_elements vs []) (\<lambda>es. Inr (e # es)))
      | b # bs \<Rightarrow> rbind (Endpoint_UnmarshalJSON v b) (\<lambda>e.
                  rbind (unmarshal_elements vs bs) (\<lambda>es. Inr (e # es))))"

text \<open>
  A slice under construction: the visible slice and its backing array. Null is the nil slice, an
  empty array a fresh empty one.
\<close>

fun unmarshal_endpoints ::
  "json \<Rightarrow> Endpoint list \<Rightarrow> json_error + (Endpoint list option \<times> Endpoint list)" where
  "unmarshal_endpoints JNull backing = Inr (None, [])"
| "unmarshal_endpoints (JArr vs) backing =
     (if vs = [] then Inr (Some [], [])
      else rbind (unmarshal_elements vs backing) (\<lambda>es. Inr (Some (take (length vs) es), es)))"
| "unmarshal_endpoints _ backing = Inl BadConfigField"

definition config_keys :: "string list" where
  "config_keys = [''schemaVersion'', ''httpPort'', ''httpVsockPort'', ''httpTcpPort'', ''endpoints'']"

text \<open>
  One member of the top-level object, decoded into \<open>configAlias\<close> by the struct rules of
  \<open>encoding/json\<close>: the key may differ in case from the field name, an unknown key is skipped.
\<close>

definition config_member ::
  "string \<times> json \<Rightarrow> Config \<times> Endpoint list \<Rightarrow> json_error + (Config \<times> Endpoint list)" where
  "config_member m st =
     (case (m, st) of ((key, v), (c, backing)) \<Rightarrow>
        (case field_of config_keys key of
           None \<Rightarrow> Inr (c, backing)
         | Some f \<Rightarrow>
             if f = ''schemaVersion'' then
               from_option BadConfigField (map_option (\<lambda>x. (c\<lparr>SchemaVersion := x\<rparr>, backing))
                 (unmarshal_string v (SchemaVersion c)))
             else if f = ''httpPort'' then
               from_option BadConfigField (map_option (\<lambda>x. (c\<lparr>HTTPPort := x\<rparr>, backing))
                 (unmarshal_uint v (HTTPPort c)))
             else if f = ''httpVsockPort'' then
               from_option BadConfigField (map_option (\<lambda>x. (c\<lparr>HTTPVsockPort := x\<rparr>, backing))
                 (unmarshal_uint v (HTTPVsockPort c)))
             else if f = ''httpTcpPort'' then
               from_option BadConfigField (map_option (\<lambda>x. (c\<lparr>HTTPTCPPort := x\<rparr>, backing))
                 (unmarshal_uint v (HTTPTCPPort c)))
             else
               rbind (unmarshal_endpoints v backing) (\<lambda>r.
                 Inr (c\<lparr>Endpoints := fst r\<rparr>, snd r))))"

fun config_members ::
  "(string \<times> json) list \<Rightarrow> Config \<times> Endpoint list \<Rightarrow> json_error + (Config \<times> Endpoint list)" where
  "config_members [] st = Inr st"
| "config_members (m # ms) st = rbind (config_member m st) (config_members ms)"

text \<open>
  \<open>Config.UnmarshalJSON\<close>. Its result does not depend on the receiver, which it overwrites. A type
  error in one member lets the decoder of \<open>encoding/json\<close> go on to the next member and fail at
  the end; here it fails at once, with no more than the error text changed.
\<close>

definition Config_UnmarshalJSON :: "json \<Rightarrow> json_error + Config" where
  "Config_UnmarshalJSON data =
     rbind (from_option NotAnObject (unmarshal_raw data)) (\<lambda>ms.
     rbind (config_members ms (zero_config, [])) (\<lambda>st.
     Inr ((fst st)\<lparr>endpointsSet := raw_member ms ''endpoints'' \<noteq> None\<rparr>)))"

definition normalize_endpoint :: "Endpoint \<Rightarrow> Endpoint" where
  "normalize_endpoint ep =
     (let ep = (if tcpPortSet ep then ep else ep\<lparr>TCPPort := defaultTCPPort\<rparr>)
      in if localPortSet ep then ep else ep\<lparr>LocalPort := defaultTCPPort\<rparr>)"

definition normalizeConfig :: "Config \<Rightarrow> Config" where
  "normalizeConfig cfg =
     (let cfg = (if SchemaVersion cfg = [] then cfg\<lparr>SchemaVersion := schemaVersionV01\<rparr> else cfg)
      in cfg\<lparr>Endpoints := map_option (map normalize_endpoint) (Endpoints cfg)\<rparr>)"

text \<open>
  \<open>ensureNoTrailingJSON\<close> on the input that the decoder has left: a further \<open>Decode\<close> must meet
  the end of the input.
\<close>

definition ensureNoTrailingJSON :: "string \<Rightarrow> bool" where
  "ensureNoTrailingJSON rest = at_eof rest"

definition ParseConfig :: "string \<Rightarrow> parse_error + Config" where
  "ParseConfig data =
     (if length data > maxConfigBytes then Inl (ConfigTooLarge (length data))
      else
        (case Decode data of
           None \<Rightarrow> Inl InvalidConfigJSON
         | Some (v, rest) \<Rightarrow>
             (case Config_UnmarshalJSON v of
                Inl e \<Rightarrow> Inl InvalidConfigJSON
              | Inr cfg \<Rightarrow>
                  if ensureNoTrailingJSON rest then Inr (normalizeConfig cfg)
                  else Inl TrailingConfigJSON)))"

text \<open>
  \<open>readAllLimited\<close> on a reader that has \<open>input\<close> left and then reports \<open>fails\<close> or end of file.
  \<open>io.LimitReader\<close> hands out at most \<open>limit + 1\<close> bytes and never reaches a failure behind them.
\<close>

datatype read_error = ReaderFailed | InputTooLarge nat

definition readAllLimited :: "string \<Rightarrow> bool \<Rightarrow> nat \<Rightarrow> read_error + string" where
  "readAllLimited input fails limit =
     (let data = take (limit + 1) input in
      if fails \<and> length input < limit + 1 then Inl ReaderFailed
      else if length data > limit then Inl (InputTooLarge (length data))
      else Inr data)"

end
