(* ===== verification/Argo_Validate.thy ===== *)
theory Argo_Validate
  imports Argo_Config
begin

text \<open>
  \<open>config.go\<close>, validation: \<open>validateHostname\<close>, \<open>ValidateEndpoint\<close>, \<open>endpointLocalIP\<close>,
  \<open>normalizeConfig\<close> and \<open>ValidateConfig\<close>, and the IPv4 part of \<open>netip.ParseAddr\<close> they call. The
  three \<open>map[...]int\<close> tables of \<open>ValidateConfig\<close> are clients of one interface, the locale
  \<open>index_table\<close>.
\<close>

section \<open>netip.ParseAddr\<close>

type_synonym ipv4 = "nat \<times> nat \<times> nat \<times> nat"

text \<open>
  \<open>parseIPv4Fields\<close>: the loop with its \<open>val\<close>, its \<open>digLen\<close> and the finished fields. A dot needs
  a digit before it and a byte after it, and only the first three fields end at a dot.
\<close>

fun parseIPv4Fields :: "nat \<Rightarrow> nat \<Rightarrow> nat list \<Rightarrow> string \<Rightarrow> nat list option" where
  "parseIPv4Fields val digLen octets [] =
     (if length octets < 3 then None else Some (octets @ [val]))"
| "parseIPv4Fields val digLen octets (c # s) =
     (if is_digit c then
        (if digLen = 1 \<and> val = 0 then None
         else if val * 10 + digit_val c > 255 then None
         else parseIPv4Fields (val * 10 + digit_val c) (digLen + 1) octets s)
      else if c = CHR ''.'' then
        (if digLen = 0 \<or> s = [] then None
         else if length octets = 3 then None
         else parseIPv4Fields 0 0 (octets @ [val]) s)
      else None)"

text \<open>
  \<open>netip.ParseAddr\<close> as far as the code asks: \<open>Some\<close> for an address with \<open>Is4()\<close>, \<open>None\<close> for an
  error and for every other address. The first dot, colon or percent sign decides the family.
\<close>

definition ParseAddr4 :: "string \<Rightarrow> ipv4 option" where
  "ParseAddr4 s =
     (case find (\<lambda>c. c = CHR ''.'' \<or> c = CHR '':'' \<or> c = CHR ''%'') s of
        Some d \<Rightarrow>
          if d = CHR ''.'' then
            (case parseIPv4Fields 0 0 [] s of
               Some [a, b, c, d] \<Rightarrow> Some (a, b, c, d)
             | _ \<Rightarrow> None)
          else None
      | None \<Rightarrow> None)"

definition IsLoopback :: "ipv4 \<Rightarrow> bool" where
  "IsLoopback ip \<longleftrightarrow> fst ip = 127"

section \<open>Operations\<close>

definition hostname_rune :: "nat \<Rightarrow> bool" where
  "hostname_rune r \<longleftrightarrow>
     (97 \<le> r \<and> r \<le> 122) \<or> (65 \<le> r \<and> r \<le> 90) \<or> (48 \<le> r \<and> r \<le> 57) \<or> r = 46 \<or> r = 45 \<or> r = 95"

fun check_runes :: "(nat \<times> string) list \<Rightarrow> hostname_error + unit" where
  "check_runes [] = Inr ()"
| "check_runes ((r, bs) # rs) = (if hostname_rune r then check_runes rs else Inl (InvalidRune r))"

fun check_labels :: "string list \<Rightarrow> hostname_error + unit" where
  "check_labels [] = Inr ()"
| "check_labels (label # labels) =
     (if label = [] then Inl EmptyLabel
      else if length label > 63 then Inl LabelTooLong
      else check_labels labels)"

definition validateHostname :: "string \<Rightarrow> hostname_error + unit" where
  "validateHostname host =
     rbind (check_runes (runes host)) (\<lambda>_. check_labels (Split host (CHR ''.'')))"

definition ValidateEndpoint :: "Endpoint \<Rightarrow> endpoint_error + unit" where
  "ValidateEndpoint ep =
     rbind (require (Host ep \<noteq> []) HostEmpty) (\<lambda>_.
     rbind (require (length (Host ep) \<le> 253) HostTooLong) (\<lambda>_.
     rbind (map_err HostInvalid (validateHostname (Host ep))) (\<lambda>_.
     rbind (require (\<not> (VsockPort ep = 0 \<or> VsockPort ep > 65535)) VsockPortRange) (\<lambda>_.
     rbind (require (\<not> (tcpPortSet ep \<and> TCPPort ep = 0)) TCPPortRange) (\<lambda>_.
     rbind (require (\<not> (localPortSet ep \<and> LocalPort ep = 0)) LocalPortRange) (\<lambda>_.
     rbind (require (\<not> (localIPSet ep \<and> LocalIP ep = [])) LocalIPEmpty) (\<lambda>_.
     if LocalIP ep \<noteq> [] then
       (case ParseAddr4 (LocalIP ep) of
          None \<Rightarrow> Inl LocalIPNotLoopback
        | Some ip \<Rightarrow> require (IsLoopback ip) LocalIPNotLoopback)
     else Inr ())))))))"

definition endpointLocalIP :: "Endpoint \<Rightarrow> nat \<Rightarrow> string" where
  "endpointLocalIP ep index =
     (if LocalIP ep \<noteq> [] then LocalIP ep else ''127.0.0.'' @ Itoa (64 + index))"

definition localAddr :: "nat \<Rightarrow> Endpoint \<Rightarrow> string" where
  "localAddr i ep = endpointLocalIP ep i @ '':'' @ Itoa (unat (LocalPort ep))"

definition check_mode :: "Config \<Rightarrow> string \<Rightarrow> config_error + unit" where
  "check_mode cfg mode =
     (if mode = validationModeHost then
        rbind (require (HTTPPort cfg \<noteq> 0) HTTPPortRange) (\<lambda>_.
        require (\<not> (HTTPVsockPort cfg = 0 \<or> HTTPVsockPort cfg > 65535)) HTTPVsockPortRange)
      else if mode = validationModeEnclave then
        rbind (require (\<not> (HTTPVsockPort cfg = 0 \<or> HTTPVsockPort cfg > 65535)) HTTPVsockPortRange)
          (\<lambda>_. require (HTTPTCPPort cfg \<noteq> 0) HTTPTCPPortRange)
      else Inl (UnknownMode mode))"

text \<open>\<open>if prev, ok := m[k]; ok { return ... }; m[k] = i\<close>: the old owner of the key is the error.\<close>

definition claim_key :: "'k \<Rightarrow> nat \<Rightarrow> ('k \<rightharpoonup> nat) \<Rightarrow> nat + ('k \<rightharpoonup> nat)" where
  "claim_key k i m = (case m k of Some prev \<Rightarrow> Inl prev | None \<Rightarrow> Inr (m(k \<mapsto> i)))"

fun check_endpoints ::
  "nat \<Rightarrow> (string \<rightharpoonup> nat) \<Rightarrow> (uint32 \<rightharpoonup> nat) \<Rightarrow> (string \<rightharpoonup> nat) \<Rightarrow> Endpoint list \<Rightarrow> config_error + unit"
where
  "check_endpoints i hosts vsockPorts localAddrs [] = Inr ()"
| "check_endpoints i hosts vsockPorts localAddrs (ep # eps) =
     rbind (map_err (BadEndpoint i) (ValidateEndpoint ep)) (\<lambda>_.
     rbind (map_err (DuplicateHost i) (claim_key (ToLower (Host ep)) i hosts)) (\<lambda>hosts.
     rbind (map_err (DuplicateVsockPort i) (claim_key (VsockPort ep) i vsockPorts)) (\<lambda>vsockPorts.
     rbind (map_err (DuplicateLocalAddr i) (claim_key (localAddr i ep) i localAddrs)) (\<lambda>localAddrs.
     check_endpoints (i + 1) hosts vsockPorts localAddrs eps))))"

text \<open>\<open>ValidateConfig\<close> after its call of \<open>normalizeConfig\<close>.\<close>

definition check_config :: "Config \<Rightarrow> string \<Rightarrow> config_error + unit" where
  "check_config cfg mode =
     rbind (require (SchemaVersion cfg = schemaVersionV01) (UnsupportedSchemaVersion (SchemaVersion cfg)))
       (\<lambda>_.
     rbind (require (endpointsSet cfg) EndpointsNotArray) (\<lambda>_.
     rbind (from_option EndpointsNotArray (Endpoints cfg)) (\<lambda>eps.
     rbind (require (length eps \<le> maxEndpoints) (TooManyEndpoints (length eps))) (\<lambda>_.
     rbind (check_mode cfg mode) (\<lambda>_.
     check_endpoints 0 Map.empty Map.empty Map.empty eps)))))"

text \<open>
  \<open>ValidateConfig\<close> on a pointer, nil as \<open>None\<close>: what the pointer holds afterwards, and the result.
\<close>

definition ValidateConfig :: "Config option \<Rightarrow> string \<Rightarrow> Config option \<times> (config_error + unit)" where
  "ValidateConfig cfg mode =
     (case cfg of
        None \<Rightarrow> (None, Inl ConfigNil)
      | Some cfg \<Rightarrow> (Some (normalizeConfig cfg), check_config (normalizeConfig cfg) mode))"

section \<open>Host names\<close>

text \<open>What \<open>validateHostname\<close> promises: dot-separated labels of letters, digits, - and _.\<close>

definition label_char :: "char \<Rightarrow> bool" where
  "label_char c \<longleftrightarrow> is_lower c \<or> is_upper c \<or> is_digit c \<or> c = CHR ''-'' \<or> c = CHR ''_''"

definition hostname_label :: "string \<Rightarrow> bool" where
  "hostname_label l \<longleftrightarrow> list_all label_char l \<and> 1 \<le> length l \<and> length l \<le> 63"

fun dotted :: "string list \<Rightarrow> string" where
  "dotted [] = []"
| "dotted [l] = l"
| "dotted (l # ls) = l @ CHR ''.'' # dotted ls"

lemma dotted_Cons: "ls \<noteq> [] \<Longrightarrow> dotted (l # ls) = l @ CHR ''.'' # dotted ls"
  by (cases ls) simp_all

lemma check_runes_iff: "check_runes rs = Inr () \<longleftrightarrow> list_all (\<lambda>x. hostname_rune (fst x)) rs"
  by (induction rs rule: check_runes.induct) simp_all

lemma check_labels_iff:
  "check_labels ls = Inr () \<longleftrightarrow> (\<forall>l \<in> set ls. 1 \<le> length l \<and> length l \<le> 63)"
  by (induction ls) (auto simp: Suc_le_eq)

lemma hostname_rune_ascii: "hostname_rune r \<Longrightarrow> r < 128"
  by (auto simp: hostname_rune_def)

lemma hostname_rune_char: "hostname_rune (ord c) \<longleftrightarrow> label_char c \<or> c = CHR ''.''"
proof -
  have "ord c = 46 \<longleftrightarrow> c = CHR ''.''" "ord c = 45 \<longleftrightarrow> c = CHR ''-''" "ord c = 95 \<longleftrightarrow> c = CHR ''_''"
    using ord_inj [of c "CHR ''.''"] ord_inj [of c "CHR ''-''"] ord_inj [of c "CHR ''_''"]
    by (simp_all del: ord_inj)
  then show ?thesis
    by (auto simp: hostname_rune_def label_char_def is_lower_def is_upper_def is_digit_def)
qed

lemma label_char_no_dot [simp]: "\<not> label_char (CHR ''.'')"
  by (simp add: label_char_def is_lower_def is_upper_def is_digit_def)

lemma dotted_first: "dotted ((c # l) # ls) = c # dotted (l # ls)"
  by (cases ls) simp_all

lemma dotted_Split: "dotted (Split s (CHR ''.'')) = s"
  by (induction s) (auto split: list.splits simp: dotted_Cons dotted_first)

lemma Split_dotted:
  "ls \<noteq> [] \<Longrightarrow> \<forall>l \<in> set ls. CHR ''.'' \<notin> set l \<Longrightarrow> Split (dotted ls) (CHR ''.'') = ls"
  by (induction ls rule: dotted.induct) (auto simp: Split_avoid Split_append)

lemma Split_all:
  "list_all P (filter (\<lambda>c. c \<noteq> d) s) \<longleftrightarrow> (\<forall>w \<in> set (Split s d). list_all P w)"
  by (induction s) (auto split: list.splits)

lemma validateHostname_labels:
  "validateHostname h = Inr () \<longleftrightarrow> (\<forall>l \<in> set (Split h (CHR ''.'')). hostname_label l)"
proof -
  have "check_runes (runes h) = Inr () \<longleftrightarrow> list_all (\<lambda>c. hostname_rune (ord c)) h"
    using all_runes_bytes [of hostname_rune h] hostname_rune_ascii by (simp add: check_runes_iff)
  also have "\<dots> \<longleftrightarrow> list_all label_char (filter (\<lambda>c. c \<noteq> CHR ''.'') h)"
    by (auto simp: hostname_rune_char list_all_iff)
  also have "\<dots> \<longleftrightarrow> (\<forall>l \<in> set (Split h (CHR ''.'')). list_all label_char l)"
    by (rule Split_all)
  finally have "check_runes (runes h) = Inr () \<longleftrightarrow>
      (\<forall>l \<in> set (Split h (CHR ''.'')). list_all label_char l)" .
  then show ?thesis
    by (auto simp: validateHostname_def result_iff check_labels_iff hostname_label_def)
qed

lemma validateHostname_dotted:
  "validateHostname h = Inr () \<longleftrightarrow> (\<exists>ls. ls \<noteq> [] \<and> h = dotted ls \<and> (\<forall>l \<in> set ls. hostname_label l))"
proof
  assume "validateHostname h = Inr ()"
  then show "\<exists>ls. ls \<noteq> [] \<and> h = dotted ls \<and> (\<forall>l \<in> set ls. hostname_label l)"
    by (intro exI [of _ "Split h (CHR ''.'')"]) (simp add: validateHostname_labels dotted_Split)
next
  assume "\<exists>ls. ls \<noteq> [] \<and> h = dotted ls \<and> (\<forall>l \<in> set ls. hostname_label l)"
  then obtain ls where ls: "ls \<noteq> []" "h = dotted ls" "\<forall>l \<in> set ls. hostname_label l" by blast
  then have "\<forall>l \<in> set ls. CHR ''.'' \<notin> set l"
    using label_char_no_dot unfolding hostname_label_def list_all_iff by blast
  with ls show "validateHostname h = Inr ()" by (simp add: validateHostname_labels Split_dotted)
qed

section \<open>IPv4 addresses\<close>

definition dotted_quad :: "nat list \<Rightarrow> string" where
  "dotted_quad ns = dotted (map Itoa ns)"

lemma dec_value_prefix: "dec_value p \<le> dec_value (p @ w)"
proof (induction w rule: rev_induct)
  case (snoc c w)
  then show ?case using dec_value_simps(2) [of "p @ w" c] by simp
qed simp

text \<open>The digits of an octet, read one at a time.\<close>

lemma parse_octet:
  assumes "n \<le> 255"
  shows "Itoa n = p @ w \<Longrightarrow>
    parseIPv4Fields (dec_value p) (length p) octets (w @ s) =
    parseIPv4Fields n (length (Itoa n)) octets s"
proof (induction w arbitrary: p)
  case Nil
  then have "dec_value p = n" by (metis append_Nil2 dec_value_Itoa)
  with Nil show ?case by simp
next
  case (Cons c w)
  have digit: "is_digit c" by (rule Itoa_set [of c n]) (simp add: Cons.prems)
  have small: "dec_value (p @ [c]) \<le> 255"
    using dec_value_prefix [of "p @ [c]" w] Cons.prems assms by (metis append.assoc append_Cons append_Nil dec_value_Itoa le_trans)
  have "\<not> (length p = 1 \<and> dec_value p = 0)"
  proof
    assume zero: "length p = 1 \<and> dec_value p = 0"
    then obtain d where p: "p = [d]" by (auto simp: length_Suc_conv)
    then have "is_digit d" by (intro Itoa_set [of d n]) (simp add: Cons.prems)
    with zero p have "d = CHR ''0''" using digit_char_val [of d] by (simp add: digit_char_0)
    with Cons.prems p have "n = 0" by (intro Itoa_hd) simp
    with Cons.prems p show False by (simp add: Itoa_small)
  qed
  with digit small have "parseIPv4Fields (dec_value p) (length p) octets (c # w @ s) =
      parseIPv4Fields (dec_value (p @ [c])) (length (p @ [c])) octets (w @ s)"
    by auto
  with Cons show ?case by simp
qed

lemma parse_quad:
  "\<forall>n \<in> set ns. n \<le> 255 \<Longrightarrow> ns \<noteq> [] \<Longrightarrow> length octets + length ns = 4 \<Longrightarrow>
   parseIPv4Fields 0 0 octets (dotted_quad ns) = Some (octets @ ns)"
proof (induction ns arbitrary: octets)
  case (Cons n ns)
  have first: "parseIPv4Fields 0 0 octets (Itoa n @ s) = parseIPv4Fields n (length (Itoa n)) octets s" for s
    using parse_octet [of n "[]" "Itoa n" octets s] Cons.prems by simp
  show ?case
  proof (cases "ns = []")
    case True
    with Cons.prems first [of "[]"] show ?thesis by (simp add: dotted_quad_def)
  next
    case False
    then have "dotted_quad (n # ns) = Itoa n @ CHR ''.'' # dotted_quad ns" "dotted_quad ns \<noteq> []"
      by (simp_all add: dotted_quad_def dotted_Cons) (cases ns, auto simp: dotted_quad_def elim!: dotted.elims)
    moreover have "length octets \<noteq> 3" using Cons.prems False by (cases ns) auto
    ultimately show ?thesis using Cons False first by (simp add: is_digit_def)
  qed
qed simp

definition octet_text :: "string \<Rightarrow> bool" where
  "octet_text p \<longleftrightarrow> dec_value p \<le> 255 \<and> (p = [] \<or> Itoa (dec_value p) = p)"

lemma octet_text_snoc:
  assumes "octet_text p" "is_digit c" "\<not> (length p = 1 \<and> dec_value p = 0)"
    "dec_value p * 10 + digit_val c \<le> 255"
  shows "octet_text (p @ [c])"
proof (cases "p = []")
  case True
  with assms show ?thesis by (simp add: octet_text_def Itoa_small)
next
  case False
  with assms have "Itoa (dec_value p) = p" by (simp add: octet_text_def)
  with assms(3) have "dec_value p \<noteq> 0" by (metis Itoa_small One_nat_def length_Cons list.size(3) zero_less_numeral)
  then have "Itoa (dec_value (p @ [c])) = Itoa (dec_value p) @ [c]"
    using assms(2) by (simp add: Itoa_large)
  with \<open>Itoa (dec_value p) = p\<close> assms(4) show ?thesis by (simp add: octet_text_def)
qed

lemma parse_quad_inv:
  "parseIPv4Fields (dec_value p) (length p) octets s = Some fs \<Longrightarrow> octet_text p \<Longrightarrow>
   p \<noteq> [] \<or> s \<noteq> [] \<Longrightarrow> length octets \<le> 3 \<Longrightarrow>
   \<exists>ns. fs = octets @ ns \<and> ns \<noteq> [] \<and> length fs = 4 \<and> (\<forall>n \<in> set ns. n \<le> 255) \<and> p @ s = dotted_quad ns"
proof (induction s arbitrary: p octets)
  case Nil
  then show ?case
    by (intro exI [of _ "[dec_value p]"]) (auto simp: octet_text_def dotted_quad_def split: if_splits)
next
  case (Cons c s)
  show ?case
  proof (cases "is_digit c")
    case True
    with Cons.prems have ok: "\<not> (length p = 1 \<and> dec_value p = 0)" "dec_value p * 10 + digit_val c \<le> 255"
      and step: "parseIPv4Fields (dec_value (p @ [c])) (length (p @ [c])) octets s = Some fs"
      by (auto split: if_splits)
    with Cons.IH [OF step] octet_text_snoc [OF Cons.prems(2) True ok] Cons.prems show ?thesis by simp
  next
    case False
    with Cons.prems(1) have c: "c = CHR ''.''" "p \<noteq> []" "s \<noteq> []" "length octets \<noteq> 3"
      and step: "parseIPv4Fields (dec_value []) (length []) (octets @ [dec_value p]) s = Some fs"
      by (auto split: if_splits)
    from Cons.IH [OF step] c Cons.prems(4) obtain ns where ns: "fs = octets @ dec_value p # ns" "ns \<noteq> []"
      "length fs = 4" "\<forall>n \<in> set ns. n \<le> 255" "s = dotted_quad ns"
      by (auto simp: octet_text_def)
    with c Cons.prems(2) show ?thesis
      by (intro exI [of _ "dec_value p # ns"]) (auto simp: octet_text_def dotted_quad_def dotted_Cons)
  qed
qed

lemma find_first_dot:
  "list_all is_digit w \<Longrightarrow>
   find (\<lambda>c. c = CHR ''.'' \<or> c = CHR '':'' \<or> c = CHR ''%'') (w @ CHR ''.'' # s) = Some (CHR ''.'')"
  by (induction w) (auto simp: is_digit_def)

lemma ParseAddr4_quad_iff:
  "ParseAddr4 s = Some (a, b, c, d) \<longleftrightarrow>
   a \<le> 255 \<and> b \<le> 255 \<and> c \<le> 255 \<and> d \<le> 255 \<and> s = dotted_quad [a, b, c, d]"
proof
  assume s: "ParseAddr4 s = Some (a, b, c, d)"
  then have "parseIPv4Fields 0 0 [] s = Some [a, b, c, d]"
    by (auto simp: ParseAddr4_def split: option.splits if_splits list.splits)
  moreover from s have "s \<noteq> []" by (auto simp: ParseAddr4_def)
  ultimately show "a \<le> 255 \<and> b \<le> 255 \<and> c \<le> 255 \<and> d \<le> 255 \<and> s = dotted_quad [a, b, c, d]"
    using parse_quad_inv [of "[]" "[]" s "[a, b, c, d]"] by (auto simp: octet_text_def)
next
  assume s: "a \<le> 255 \<and> b \<le> 255 \<and> c \<le> 255 \<and> d \<le> 255 \<and> s = dotted_quad [a, b, c, d]"
  then have "s = Itoa a @ CHR ''.'' # dotted_quad [b, c, d]" by (simp add: dotted_quad_def)
  moreover have "list_all is_digit (Itoa a)" using Itoa_digits [of a] by (simp add: all_digits_def del: Itoa_digits)
  moreover from s have "parseIPv4Fields 0 0 [] s = Some [a, b, c, d]"
    using parse_quad [of "[a, b, c, d]" "[]"] by simp
  ultimately show "ParseAddr4 s = Some (a, b, c, d)"
    by (simp add: ParseAddr4_def find_first_dot)
qed

lemma ParseAddr4_inj: "ParseAddr4 s = Some ip \<Longrightarrow> ParseAddr4 t = Some ip \<Longrightarrow> s = t"
  by (cases ip) (simp add: ParseAddr4_quad_iff)

section \<open>Endpoints\<close>

text \<open>What \<open>ValidateEndpoint\<close> promises.\<close>

definition loopback_text :: "string \<Rightarrow> bool" where
  "loopback_text s \<longleftrightarrow> (\<exists>b c d. b \<le> 255 \<and> c \<le> 255 \<and> d \<le> 255 \<and> s = dotted_quad [127, b, c, d])"

definition port_ok :: "'w::len word \<Rightarrow> bool" where
  "port_ok w \<longleftrightarrow> 1 \<le> unat w \<and> unat w \<le> 65535"

definition endpoint_ok :: "Endpoint \<Rightarrow> bool" where
  "endpoint_ok ep \<longleftrightarrow>
     (\<exists>ls. ls \<noteq> [] \<and> Host ep = dotted ls \<and> (\<forall>l \<in> set ls. hostname_label l)) \<and> length (Host ep) \<le> 253
     \<and> port_ok (VsockPort ep)
     \<and> (tcpPortSet ep \<longrightarrow> port_ok (TCPPort ep))
     \<and> (localPortSet ep \<longrightarrow> port_ok (LocalPort ep))
     \<and> (localIPSet ep \<longrightarrow> LocalIP ep \<noteq> [])
     \<and> (LocalIP ep \<noteq> [] \<longrightarrow> loopback_text (LocalIP ep))"

lemma port_ok_32: "port_ok (w :: uint32) \<longleftrightarrow> \<not> (w = 0 \<or> w > 65535)"
  by (auto simp: port_ok_def word_less_nat_alt unat_eq_0 Suc_le_eq not_less unat_gt_0)

lemma port_ok_16: "port_ok (w :: uint16) \<longleftrightarrow> w \<noteq> 0"
proof -
  have "unat w < 65536" using unsigned_less [of w] by simp
  then show ?thesis by (auto simp: port_ok_def Suc_le_eq unat_gt_0)
qed

lemma loopback_ParseAddr4:
  "loopback_text s \<longleftrightarrow> (\<exists>ip. ParseAddr4 s = Some ip \<and> IsLoopback ip)"
  by (auto simp: loopback_text_def ParseAddr4_quad_iff IsLoopback_def)

lemma dotted_not_Nil: "ls \<noteq> [] \<Longrightarrow> \<forall>l \<in> set ls. hostname_label l \<Longrightarrow> dotted ls \<noteq> []"
  by (cases ls rule: dotted.cases) (auto simp: hostname_label_def)

lemma ValidateEndpoint_endpoint_ok: "ValidateEndpoint ep = Inr () \<longleftrightarrow> endpoint_ok ep"
proof -
  have host: "Host ep \<noteq> [] \<and> length (Host ep) \<le> 253 \<and> validateHostname (Host ep) = Inr () \<longleftrightarrow>
      (\<exists>ls. ls \<noteq> [] \<and> Host ep = dotted ls \<and> (\<forall>l \<in> set ls. hostname_label l)) \<and> length (Host ep) \<le> 253"
    unfolding validateHostname_dotted using dotted_not_Nil by metis
  have ip: "(if LocalIP ep \<noteq> [] then
       (case ParseAddr4 (LocalIP ep) of
          None \<Rightarrow> Inl LocalIPNotLoopback
        | Some ip \<Rightarrow> require (IsLoopback ip) LocalIPNotLoopback)
     else Inr ()) = Inr () \<longleftrightarrow> (LocalIP ep \<noteq> [] \<longrightarrow> loopback_text (LocalIP ep))"
    by (auto simp: loopback_ParseAddr4 result_iff split: option.splits)
  show ?thesis
    unfolding ValidateEndpoint_def endpoint_ok_def rbind_Inr_iff require_Inr_iff map_err_Inr_iff ip
    using host by (simp add: port_ok_32 port_ok_16) blast
qed

text \<open>The address an endpoint is bound to inside the enclave.\<close>

definition bind_ip :: "nat \<Rightarrow> Endpoint \<Rightarrow> ipv4" where
  "bind_ip i ep = the (ParseAddr4 (endpointLocalIP ep i))"

lemma default_local_ip:
  "''127.0.0.'' @ Itoa n = dotted_quad [127, 0, 0, n]"
proof -
  have "Itoa 127 = ''127''" "Itoa 0 = ''0''" by code_simp+
  then show ?thesis by (simp add: dotted_quad_def)
qed

lemma endpointLocalIP_loopback:
  assumes "endpoint_ok ep" "i < maxEndpoints"
  shows "loopback_text (endpointLocalIP ep i)"
proof (cases "LocalIP ep = []")
  case True
  have "loopback_text (dotted_quad [127, 0, 0, 64 + i])"
    unfolding loopback_text_def
    by (intro exI [of _ 0] exI [of _ "64 + i"]) (use assms(2) in \<open>simp add: maxEndpoints_def\<close>)
  with True show ?thesis unfolding endpointLocalIP_def default_local_ip by simp
qed (use assms in \<open>auto simp: endpoint_ok_def endpointLocalIP_def\<close>)

lemma loopback_text_chars: "loopback_text s \<Longrightarrow> x \<in> set s \<Longrightarrow> is_digit x \<or> x = CHR ''.''"
  by (auto simp: loopback_text_def dotted_quad_def dest: Itoa_set)

lemma localAddr_split:
  assumes "endpoint_ok ep" "i < maxEndpoints"
  shows "Split (localAddr i ep) (CHR '':'') = [endpointLocalIP ep i, Itoa (unat (LocalPort ep))]"
proof -
  have "CHR '':'' \<notin> set (endpointLocalIP ep i)"
    using loopback_text_chars [OF endpointLocalIP_loopback [OF assms], of "CHR '':''"]
    by (auto simp: is_digit_def)
  moreover have "CHR '':'' \<notin> set (Itoa (unat (LocalPort ep)))"
    using Itoa_set [of "CHR '':''" "unat (LocalPort ep)"] by (auto simp: is_digit_def)
  ultimately show ?thesis by (simp add: localAddr_def Split_append Split_avoid)
qed

text \<open>Equal local address texts are equal addresses and ports.\<close>

lemma localAddr_eq_iff:
  assumes "endpoint_ok ep" "i < maxEndpoints" "endpoint_ok eq" "j < maxEndpoints"
  shows "localAddr i ep = localAddr j eq \<longleftrightarrow>
    bind_ip i ep = bind_ip j eq \<and> LocalPort ep = LocalPort eq"
proof -
  obtain p q where pq: "ParseAddr4 (endpointLocalIP ep i) = Some p" "ParseAddr4 (endpointLocalIP eq j) = Some q"
    using endpointLocalIP_loopback [OF assms(1,2)] endpointLocalIP_loopback [OF assms(3,4)]
    by (auto simp: loopback_ParseAddr4)
  then have "endpointLocalIP ep i = endpointLocalIP eq j \<longleftrightarrow> p = q"
    by (auto intro: ParseAddr4_inj [of _ q])
  moreover have "localAddr i ep = localAddr j eq \<longleftrightarrow>
      endpointLocalIP ep i = endpointLocalIP eq j \<and> LocalPort ep = LocalPort eq"
  proof
    assume "localAddr i ep = localAddr j eq"
    then have "[endpointLocalIP ep i, Itoa (unat (LocalPort ep))] =
        [endpointLocalIP eq j, Itoa (unat (LocalPort eq))]"
      by (simp only: localAddr_split [OF assms(1,2), symmetric] localAddr_split [OF assms(3,4), symmetric])
    then show "endpointLocalIP ep i = endpointLocalIP eq j \<and> LocalPort ep = LocalPort eq"
      by (auto intro: unsigned_word_eqI)
  qed (simp add: localAddr_def)
  ultimately show ?thesis using pq by (simp add: bind_ip_def)
qed

section \<open>The tables of ValidateConfig\<close>

text \<open>\<open>indexes m ks\<close>: the map \<open>m\<close> sends each of the pairwise distinct keys \<open>ks\<close> to its index.\<close>

definition indexes :: "('k \<rightharpoonup> nat) \<Rightarrow> 'k list \<Rightarrow> bool" where
  "indexes m ks \<longleftrightarrow> distinct ks \<and> (\<forall>k j. m k = Some j \<longleftrightarrow> j < length ks \<and> ks ! j = k)"

lemma indexes_None: "indexes m ks \<Longrightarrow> m k = None \<longleftrightarrow> k \<notin> set ks"
  unfolding indexes_def by (metis in_set_conv_nth not_None_eq)

lemma indexes_snoc:
  assumes "indexes m ks" "k \<notin> set ks"
  shows "indexes (m(k \<mapsto> length ks)) (ks @ [k])"
proof -
  have "(m(k \<mapsto> length ks)) x = Some j \<longleftrightarrow> j < length (ks @ [k]) \<and> (ks @ [k]) ! j = x" for x j
  proof (cases "j = length ks")
    case True
    then have "m x \<noteq> Some j" using assms(1) by (auto simp: indexes_def)
    with True show ?thesis by auto
  next
    case False
    have "j < length ks \<Longrightarrow> ks ! j \<noteq> k" using assms(2) by auto
    with False assms(1) show ?thesis by (auto simp: indexes_def nth_append)
  qed
  with assms show ?thesis by (auto simp: indexes_def)
qed

text \<open>
  What the loop needs of a table: a fresh one owns nothing, a free key is recorded with its index,
  a taken one is refused with the index of its owner.
\<close>

locale index_table =
  fixes fresh :: 't
    and owner :: "'t \<Rightarrow> 'k \<Rightarrow> nat option"
    and claim :: "'k \<Rightarrow> nat \<Rightarrow> 't \<Rightarrow> nat + 't"
  assumes owner_fresh: "owner fresh k = None"
    and claim_free: "owner t k = None \<Longrightarrow> \<exists>t'. claim k i t = Inr t' \<and> owner t' = (owner t)(k \<mapsto> i)"
    and claim_taken: "owner t k = Some j \<Longrightarrow> claim k i t = Inl j"
begin

lemma fresh_indexes: "indexes (owner fresh) []"
  by (simp add: indexes_def owner_fresh)

lemma claim_new:
  assumes "indexes (owner t) ks" "k \<notin> set ks"
  obtains t' where "claim k (length ks) t = Inr t'" "indexes (owner t') (ks @ [k])"
  using claim_free [of t k "length ks"] indexes_snoc [OF assms] indexes_None [OF assms(1)] assms(2)
  by auto

lemma claim_old:
  assumes "indexes (owner t) ks" "k \<in> set ks"
  obtains j where "claim k i t = Inl j" "j < length ks" "ks ! j = k"
proof -
  from assms(2) obtain j where j: "j < length ks" "ks ! j = k" by (auto simp: in_set_conv_nth)
  with assms(1) have "owner t k = Some j" by (simp add: indexes_def)
  with j that claim_taken show ?thesis by blast
qed

lemma claim_Inl_iff:
  assumes "indexes (owner t) ks"
  shows "claim k (length ks) t = Inl j \<longleftrightarrow> j < length ks \<and> ks ! j = k"
proof (cases "k \<in> set ks")
  case True
  then obtain i where "claim k (length ks) t = Inl i" "i < length ks" "ks ! i = k"
    by (rule claim_old [OF assms])
  with assms show ?thesis by (auto simp: indexes_def nth_eq_iff_index_eq)
next
  case False
  then obtain t' where "claim k (length ks) t = Inr t'" by (rule claim_new [OF assms])
  with False show ?thesis by auto
qed

lemma claim_Inr_iff:
  assumes "indexes (owner t) ks"
  shows "(\<exists>t'. claim k (length ks) t = Inr t') \<longleftrightarrow> k \<notin> set ks"
  by (metis Inl_Inr_False assms claim_new claim_old)

lemma claim_indexes:
  assumes "indexes (owner t) ks" "claim k (length ks) t = Inr t'"
  shows "indexes (owner t') (ks @ [k]) \<and> k \<notin> set ks"
proof -
  have k: "k \<notin> set ks" using assms claim_Inr_iff by blast
  then obtain u where "claim k (length ks) t = Inr u" "indexes (owner u) (ks @ [k])"
    by (rule claim_new [OF assms(1)])
  with assms(2) k show ?thesis by simp
qed

end

interpretation seen: index_table Map.empty "\<lambda>m. m" claim_key
  by unfold_locales (auto simp: claim_key_def)

section \<open>The endpoint loop\<close>

definition host_key :: "Endpoint \<Rightarrow> string" where
  "host_key ep = ToLower (Host ep)"

definition local_addrs :: "Endpoint list \<Rightarrow> string list" where
  "local_addrs eps = map (\<lambda>i. localAddr i (eps ! i)) [0..<length eps]"

lemma local_addrs_snoc: "local_addrs (eps @ [ep]) = local_addrs eps @ [localAddr (length eps) ep]"
  by (simp add: local_addrs_def nth_append)

lemma local_addrs_length [simp]: "length (local_addrs eps) = length eps"
  by (simp add: local_addrs_def)

lemma local_addrs_nth [simp]: "j < length eps \<Longrightarrow> local_addrs eps ! j = localAddr j (eps ! j)"
  by (simp add: local_addrs_def)

text \<open>The tables after the endpoints \<open>before\<close>.\<close>

definition tables ::
  "(string \<rightharpoonup> nat) \<Rightarrow> (uint32 \<rightharpoonup> nat) \<Rightarrow> (string \<rightharpoonup> nat) \<Rightarrow> Endpoint list \<Rightarrow> bool" where
  "tables hosts vsockPorts localAddrs before \<longleftrightarrow>
     indexes hosts (map host_key before) \<and> indexes vsockPorts (map VsockPort before)
     \<and> indexes localAddrs (local_addrs before)"

definition distinct_keys :: "Endpoint list \<Rightarrow> bool" where
  "distinct_keys eps \<longleftrightarrow>
     distinct (map host_key eps) \<and> distinct (map VsockPort eps) \<and> distinct (local_addrs eps)"

lemma tables_start: "tables Map.empty Map.empty Map.empty []"
  using seen.fresh_indexes by (simp add: tables_def local_addrs_def indexes_def)

lemma tables_step:
  assumes "tables h v l before" "claim_key (host_key ep) (length before) h = Inr h'"
    "claim_key (VsockPort ep) (length before) v = Inr v'"
    "claim_key (localAddr (length before) ep) (length before) l = Inr l'"
  shows "tables h' v' l' (before @ [ep])"
  using assms seen.claim_indexes [of h "map host_key before"] seen.claim_indexes [of v "map VsockPort before"]
    seen.claim_indexes [of l "local_addrs before"]
  by (auto simp: tables_def local_addrs_snoc)

lemma tables_distinct: "tables h v l before \<Longrightarrow> distinct_keys before"
  by (simp add: tables_def distinct_keys_def indexes_def)

text \<open>What each outcome of the loop says about the endpoints, which continue those it has seen.\<close>

fun loop_outcome :: "Endpoint list \<Rightarrow> config_error + unit \<Rightarrow> bool" where
  "loop_outcome eps (Inr u) \<longleftrightarrow> list_all endpoint_ok eps \<and> distinct_keys eps"
| "loop_outcome eps (Inl (BadEndpoint i e)) \<longleftrightarrow>
     i < length eps \<and> list_all endpoint_ok (take i eps) \<and> distinct_keys (take i eps)
     \<and> ValidateEndpoint (eps ! i) = Inl e"
| "loop_outcome eps (Inl (DuplicateHost i j)) \<longleftrightarrow>
     j < i \<and> i < length eps \<and> list_all endpoint_ok (take (Suc i) eps) \<and> distinct_keys (take i eps)
     \<and> host_key (eps ! i) = host_key (eps ! j)"
| "loop_outcome eps (Inl (DuplicateVsockPort i j)) \<longleftrightarrow>
     j < i \<and> i < length eps \<and> list_all endpoint_ok (take (Suc i) eps) \<and> distinct_keys (take i eps)
     \<and> distinct (map host_key (take (Suc i) eps)) \<and> VsockPort (eps ! i) = VsockPort (eps ! j)"
| "loop_outcome eps (Inl (DuplicateLocalAddr i j)) \<longleftrightarrow>
     j < i \<and> i < length eps \<and> list_all endpoint_ok (take (Suc i) eps) \<and> distinct_keys (take i eps)
     \<and> distinct (map host_key (take (Suc i) eps)) \<and> distinct (map VsockPort (take (Suc i) eps))
     \<and> localAddr i (eps ! i) = localAddr j (eps ! j)"
| "loop_outcome eps (Inl e) \<longleftrightarrow> False"

lemma check_endpoints_outcome:
  "tables h v l before \<Longrightarrow> list_all endpoint_ok before \<Longrightarrow>
   loop_outcome (before @ eps) (check_endpoints (length before) h v l eps)"
proof (induction eps arbitrary: before h v l)
  case Nil
  then show ?case by (simp add: tables_distinct)
next
  case (Cons ep eps)
  note keys = tables_distinct [OF Cons.prems(1)]
  have ix: "indexes h (map host_key before)" "indexes v (map VsockPort before)"
    "indexes l (local_addrs before)" using Cons.prems(1) by (simp_all add: tables_def)
  note dup = seen.claim_Inl_iff [OF ix(1)] seen.claim_Inl_iff [OF ix(2)] seen.claim_Inl_iff [OF ix(3)]
  note new = seen.claim_indexes [OF ix(1)] seen.claim_indexes [OF ix(2)]
  show ?case
  proof (cases "ValidateEndpoint ep")
    case (Inl e)
    with Cons.prems keys show ?thesis by simp
  next
    case (Inr u)
    then have before: "list_all endpoint_ok (before @ [ep])"
      using ValidateEndpoint_endpoint_ok [of ep] Cons.prems(2) by simp
    consider j where "claim_key (host_key ep) (length before) h = Inl j"
      | h' j where "claim_key (host_key ep) (length before) h = Inr h'"
          "claim_key (VsockPort ep) (length before) v = Inl j"
      | h' v' j where "claim_key (host_key ep) (length before) h = Inr h'"
          "claim_key (VsockPort ep) (length before) v = Inr v'"
          "claim_key (localAddr (length before) ep) (length before) l = Inl j"
      | h' v' l' where "claim_key (host_key ep) (length before) h = Inr h'"
          "claim_key (VsockPort ep) (length before) v = Inr v'"
          "claim_key (localAddr (length before) ep) (length before) l = Inr l'"
      by (metis sum.exhaust)
    then show ?thesis
    proof cases
      case (1 j)
      then have "j < length before \<and> host_key (before ! j) = host_key ep"
        using dup(1) [of "host_key ep" j] by auto
      with 1 Inr before keys show ?thesis by (simp add: host_key_def nth_append)
    next
      case (2 h' j)
      then have "j < length before \<and> VsockPort (before ! j) = VsockPort ep" "host_key ep \<notin> host_key ` set before"
        using dup(2) [of "VsockPort ep" j] new(1) [of "host_key ep" h'] by auto
      with 2 Inr before keys show ?thesis by (simp add: host_key_def nth_append distinct_keys_def)
    next
      case (3 h' v' j)
      then have "j < length before \<and> localAddr j (before ! j) = localAddr (length before) ep"
        "host_key ep \<notin> host_key ` set before" "VsockPort ep \<notin> VsockPort ` set before"
        using dup(3) [of "localAddr (length before) ep" j] new(1) [of "host_key ep" h']
          new(2) [of "VsockPort ep" v'] by auto
      with 3 Inr before keys show ?thesis by (simp add: host_key_def nth_append distinct_keys_def)
    next
      case (4 h' v' l')
      with Cons.IH [OF tables_step [OF Cons.prems(1) 4] before] Inr show ?thesis
        by (simp add: host_key_def)
    qed
  qed
qed

lemma loop_outcome_ok:
  assumes "loop_outcome eps r" "list_all endpoint_ok eps" "distinct_keys eps"
  shows "r = Inr ()"
proof (cases r)
  case (Inl e)
  with assms show ?thesis
  proof (cases e)
    case (BadEndpoint i f)
    with Inl assms ValidateEndpoint_endpoint_ok [of "eps ! i"] show ?thesis by (auto simp: list_all_length)
  next
    case (DuplicateHost i j)
    with Inl assms show ?thesis
      using nth_eq_iff_index_eq [of "map host_key eps" i j] by (auto simp: distinct_keys_def)
  next
    case (DuplicateVsockPort i j)
    with Inl assms show ?thesis
      using nth_eq_iff_index_eq [of "map VsockPort eps" i j] by (auto simp: distinct_keys_def)
  next
    case (DuplicateLocalAddr i j)
    with Inl assms show ?thesis
      using nth_eq_iff_index_eq [of "local_addrs eps" i j] by (auto simp: distinct_keys_def)
  qed auto
qed simp

section \<open>What ValidateConfig promises\<close>

definition mode_ok :: "Config \<Rightarrow> string \<Rightarrow> bool" where
  "mode_ok cfg mode \<longleftrightarrow>
     port_ok (HTTPVsockPort cfg)
     \<and> (mode = validationModeHost \<and> port_ok (HTTPPort cfg)
        \<or> mode = validationModeEnclave \<and> port_ok (HTTPTCPPort cfg))"

definition binds :: "Endpoint list \<Rightarrow> (ipv4 \<times> uint16) list" where
  "binds eps = map (\<lambda>i. (bind_ip i (eps ! i), LocalPort (eps ! i))) [0..<length eps]"

definition endpoints_ok :: "Endpoint list \<Rightarrow> bool" where
  "endpoints_ok eps \<longleftrightarrow>
     length eps \<le> 191 \<and> list_all endpoint_ok eps
     \<and> distinct (map host_key eps) \<and> distinct (map VsockPort eps) \<and> distinct (binds eps)"

definition config_ok :: "Config \<Rightarrow> string \<Rightarrow> bool" where
  "config_ok cfg mode \<longleftrightarrow>
     SchemaVersion cfg = ''v0.1'' \<and> endpointsSet cfg \<and> mode_ok cfg mode
     \<and> (case Endpoints cfg of None \<Rightarrow> False | Some eps \<Rightarrow> endpoints_ok eps)"

lemma distinct_binds:
  assumes "list_all endpoint_ok eps" "length eps \<le> maxEndpoints"
  shows "distinct (local_addrs eps) \<longleftrightarrow> distinct (binds eps)"
proof -
  have "inj_on (\<lambda>i. localAddr i (eps ! i)) {0..<length eps} \<longleftrightarrow>
      inj_on (\<lambda>i. (bind_ip i (eps ! i), LocalPort (eps ! i))) {0..<length eps}"
    using assms localAddr_eq_iff by (auto simp: inj_on_def list_all_length)
  then show ?thesis by (simp add: local_addrs_def binds_def distinct_map)
qed

lemma check_mode_ok: "check_mode cfg mode = Inr () \<longleftrightarrow> mode_ok cfg mode"
  by (auto simp: check_mode_def mode_ok_def result_iff port_ok_32 port_ok_16
      validationModeHost_def validationModeEnclave_def)

lemma check_endpoints_start:
  "loop_outcome eps (check_endpoints 0 Map.empty Map.empty Map.empty eps)"
  using check_endpoints_outcome [OF tables_start, of eps] by simp

lemma check_endpoints_ok:
  assumes "length eps \<le> maxEndpoints"
  shows "check_endpoints 0 Map.empty Map.empty Map.empty eps = Inr () \<longleftrightarrow> endpoints_ok eps"
proof -
  have "check_endpoints 0 Map.empty Map.empty Map.empty eps = Inr () \<longleftrightarrow>
      list_all endpoint_ok eps \<and> distinct_keys eps"
    using check_endpoints_start [of eps] loop_outcome_ok [OF check_endpoints_start, of eps] by auto
  with assms show ?thesis
    using distinct_binds [of eps] by (auto simp: endpoints_ok_def distinct_keys_def maxEndpoints_def)
qed

lemma check_config_ok: "check_config cfg mode = Inr () \<longleftrightarrow> config_ok cfg mode"
  using check_endpoints_ok
  by (auto simp: check_config_def config_ok_def result_iff check_mode_ok schemaVersionV01_def
      maxEndpoints_def endpoints_ok_def split: option.splits)

lemma normalize_endpoint_idem [simp]: "normalize_endpoint (normalize_endpoint ep) = normalize_endpoint ep"
  by (simp add: normalize_endpoint_def Let_def)

lemma normalizeConfig_idem [simp]: "normalizeConfig (normalizeConfig cfg) = normalizeConfig cfg"
  by (cases "Endpoints cfg") (simp_all add: normalizeConfig_def Let_def schemaVersionV01_def)

lemma normalize_endpoint_simps [simp]:
  "Host (normalize_endpoint ep) = Host ep"
  "VsockPort (normalize_endpoint ep) = VsockPort ep"
  "LocalIP (normalize_endpoint ep) = LocalIP ep"
  "tcpPortSet (normalize_endpoint ep) = tcpPortSet ep"
  "localPortSet (normalize_endpoint ep) = localPortSet ep"
  "localIPSet (normalize_endpoint ep) = localIPSet ep"
  "hostSet (normalize_endpoint ep) = hostSet ep"
  "TCPPort (normalize_endpoint ep) = (if tcpPortSet ep then TCPPort ep else 443)"
  "LocalPort (normalize_endpoint ep) = (if localPortSet ep then LocalPort ep else 443)"
  by (simp_all add: normalize_endpoint_def Let_def defaultTCPPort_def)

end
