(* ===== verification/Argo_Errors.thy ===== *)
theory Argo_Errors
  imports Argo_Validate
begin

text \<open>
  \<open>config.go\<close>, the errors of the validation: for each error of \<open>validateHostname\<close>, \<open>ValidateEndpoint\<close>
  and \<open>ValidateConfig\<close> the condition under which it is the first rule that is broken. The conditions
  exclude each other, so that they determine the result.
\<close>

section \<open>Host names and endpoints\<close>

text \<open>The first rune that is not allowed, and otherwise the first label of a wrong length.\<close>

fun hostname_outcome :: "string \<Rightarrow> hostname_error \<Rightarrow> bool" where
  "hostname_outcome host (InvalidRune r) \<longleftrightarrow>
     find (\<lambda>r. \<not> hostname_rune r) (map fst (runes host)) = Some r"
| "hostname_outcome host EmptyLabel \<longleftrightarrow>
     list_all hostname_rune (map fst (runes host))
     \<and> find (\<lambda>l. l = [] \<or> 63 < length l) (Split host (CHR ''.'')) = Some []"
| "hostname_outcome host LabelTooLong \<longleftrightarrow>
     list_all hostname_rune (map fst (runes host))
     \<and> (case find (\<lambda>l. l = [] \<or> 63 < length l) (Split host (CHR ''.'')) of
          None \<Rightarrow> False
        | Some l \<Rightarrow> 63 < length l)"

lemma check_runes_find:
  "check_runes rs = (case find (\<lambda>r. \<not> hostname_rune r) (map fst rs) of None \<Rightarrow> Inr () | Some r \<Rightarrow> Inl (InvalidRune r))"
  by (induction rs rule: check_runes.induct) simp_all

lemma check_labels_find:
  "check_labels ls = (case find (\<lambda>l. l = [] \<or> 63 < length l) ls of
     None \<Rightarrow> Inr () | Some l \<Rightarrow> Inl (if l = [] then EmptyLabel else LabelTooLong))"
  by (induction ls) simp_all

lemma find_None_all: "find (\<lambda>x. \<not> P x) xs = None \<longleftrightarrow> list_all P xs"
  by (auto simp: find_None_iff list_all_iff)

lemma validateHostname_outcome: "validateHostname host = Inl e \<longleftrightarrow> hostname_outcome host e"
proof (cases "find (\<lambda>r. \<not> hostname_rune r) (map fst (runes host))")
  case None
  have "63 < length l" if "find (\<lambda>l. l = [] \<or> 63 < length l) (Split host (CHR ''.'')) = Some l" "l \<noteq> []" for l
    using that by (auto simp: find_Some_iff)
  with None show ?thesis
    by (cases e) (auto simp: validateHostname_def check_runes_find check_labels_find find_None_all [symmetric]
        split: option.split)
next
  case (Some r)
  then show ?thesis
    by (cases e) (auto simp: validateHostname_def check_runes_find find_None_all [symmetric])
qed

definition host_ok :: "Endpoint \<Rightarrow> bool" where
  "host_ok ep \<longleftrightarrow>
     (\<exists>ls. ls \<noteq> [] \<and> Host ep = dotted ls \<and> (\<forall>l \<in> set ls. hostname_label l)) \<and> length (Host ep) \<le> 253"

text \<open>The rules for an endpoint in the order of the code; each error means that those before it hold.\<close>

fun endpoint_outcome :: "Endpoint \<Rightarrow> endpoint_error \<Rightarrow> bool" where
  "endpoint_outcome ep HostEmpty \<longleftrightarrow> Host ep = []"
| "endpoint_outcome ep HostTooLong \<longleftrightarrow> 253 < length (Host ep)"
| "endpoint_outcome ep (HostInvalid h) \<longleftrightarrow>
     Host ep \<noteq> [] \<and> length (Host ep) \<le> 253 \<and> hostname_outcome (Host ep) h"
| "endpoint_outcome ep VsockPortRange \<longleftrightarrow> host_ok ep \<and> \<not> port_ok (VsockPort ep)"
| "endpoint_outcome ep TCPPortRange \<longleftrightarrow>
     host_ok ep \<and> port_ok (VsockPort ep) \<and> tcpPortSet ep \<and> \<not> port_ok (TCPPort ep)"
| "endpoint_outcome ep LocalPortRange \<longleftrightarrow>
     host_ok ep \<and> port_ok (VsockPort ep) \<and> (tcpPortSet ep \<longrightarrow> port_ok (TCPPort ep))
     \<and> localPortSet ep \<and> \<not> port_ok (LocalPort ep)"
| "endpoint_outcome ep LocalIPEmpty \<longleftrightarrow>
     host_ok ep \<and> port_ok (VsockPort ep) \<and> (tcpPortSet ep \<longrightarrow> port_ok (TCPPort ep))
     \<and> (localPortSet ep \<longrightarrow> port_ok (LocalPort ep)) \<and> localIPSet ep \<and> LocalIP ep = []"
| "endpoint_outcome ep LocalIPNotLoopback \<longleftrightarrow>
     host_ok ep \<and> port_ok (VsockPort ep) \<and> (tcpPortSet ep \<longrightarrow> port_ok (TCPPort ep))
     \<and> (localPortSet ep \<longrightarrow> port_ok (LocalPort ep)) \<and> LocalIP ep \<noteq> [] \<and> \<not> loopback_text (LocalIP ep)"

lemma host_ok_checked:
  "host_ok ep \<longleftrightarrow> Host ep \<noteq> [] \<and> length (Host ep) \<le> 253 \<and> validateHostname (Host ep) = Inr ()"
  unfolding host_ok_def validateHostname_dotted using dotted_not_Nil by metis

lemma local_ip_checked:
  "LocalIP ep \<noteq> [] \<Longrightarrow>
   (case ParseAddr4 (LocalIP ep) of
      None \<Rightarrow> Inl LocalIPNotLoopback
    | Some ip \<Rightarrow> require (IsLoopback ip) LocalIPNotLoopback) =
   (if loopback_text (LocalIP ep) then Inr () else Inl LocalIPNotLoopback)"
  by (auto simp: loopback_ParseAddr4 require_def split: option.splits)

lemma ValidateEndpoint_outcome: "ValidateEndpoint ep = Inl e \<longleftrightarrow> endpoint_outcome ep e"
proof (cases "host_ok ep")
  case True
  then have host: "Host ep \<noteq> []" "length (Host ep) \<le> 253" "validateHostname (Host ep) = Inr ()"
    by (simp_all add: host_ok_checked)
  then have "\<not> hostname_outcome (Host ep) h" for h by (simp flip: validateHostname_outcome)
  with True host show ?thesis
    by (cases e) (auto simp: ValidateEndpoint_def local_ip_checked require_def rbind_def map_err_def port_ok_32 port_ok_16)
next
  case False
  then show ?thesis
    by (cases "validateHostname (Host ep)"; cases e)
      (auto simp: host_ok_checked ValidateEndpoint_def require_def rbind_def map_err_def
        validateHostname_outcome [symmetric])
qed

section \<open>Configurations\<close>

definition header_ok :: "Config \<Rightarrow> bool" where
  "header_ok cfg \<longleftrightarrow>
     SchemaVersion cfg = ''v0.1'' \<and> endpointsSet cfg
     \<and> (case Endpoints cfg of None \<Rightarrow> False | Some eps \<Rightarrow> length eps \<le> 191)"

text \<open>
  The rules for a configuration with its defaults filled in, in the order of the code: each outcome
  means that its rule is broken and that all rules before it hold.
\<close>

fun config_outcome :: "Config \<Rightarrow> string \<Rightarrow> config_error + unit \<Rightarrow> bool" where
  "config_outcome cfg mode (Inr u) \<longleftrightarrow> config_ok cfg mode"
| "config_outcome cfg mode (Inl ConfigNil) \<longleftrightarrow> False"
| "config_outcome cfg mode (Inl (UnsupportedSchemaVersion v)) \<longleftrightarrow> v = SchemaVersion cfg \<and> v \<noteq> ''v0.1''"
| "config_outcome cfg mode (Inl EndpointsNotArray) \<longleftrightarrow>
     SchemaVersion cfg = ''v0.1'' \<and> (\<not> endpointsSet cfg \<or> Endpoints cfg = None)"
| "config_outcome cfg mode (Inl (TooManyEndpoints n)) \<longleftrightarrow>
     SchemaVersion cfg = ''v0.1'' \<and> endpointsSet cfg
     \<and> (case Endpoints cfg of None \<Rightarrow> False | Some eps \<Rightarrow> n = length eps \<and> 191 < n)"
| "config_outcome cfg mode (Inl HTTPPortRange) \<longleftrightarrow>
     header_ok cfg \<and> mode = ''host'' \<and> \<not> port_ok (HTTPPort cfg)"
| "config_outcome cfg mode (Inl HTTPVsockPortRange) \<longleftrightarrow>
     header_ok cfg \<and> (mode = ''host'' \<and> port_ok (HTTPPort cfg) \<or> mode = ''enclave'')
     \<and> \<not> port_ok (HTTPVsockPort cfg)"
| "config_outcome cfg mode (Inl HTTPTCPPortRange) \<longleftrightarrow>
     header_ok cfg \<and> mode = ''enclave'' \<and> port_ok (HTTPVsockPort cfg) \<and> \<not> port_ok (HTTPTCPPort cfg)"
| "config_outcome cfg mode (Inl (UnknownMode m)) \<longleftrightarrow>
     header_ok cfg \<and> m = mode \<and> mode \<notin> {''host'', ''enclave''}"
| "config_outcome cfg mode (Inl (BadEndpoint i e)) \<longleftrightarrow>
     header_ok cfg \<and> mode_ok cfg mode
     \<and> (let eps = the (Endpoints cfg)
        in i < length eps \<and> list_all endpoint_ok (take i eps) \<and> distinct_keys (take i eps)
           \<and> endpoint_outcome (eps ! i) e)"
| "config_outcome cfg mode (Inl e) \<longleftrightarrow>
     header_ok cfg \<and> mode_ok cfg mode \<and> loop_outcome (the (Endpoints cfg)) (Inl e)"

lemma loop_config_outcome:
  "header_ok cfg \<Longrightarrow> mode_ok cfg mode \<Longrightarrow>
   loop_outcome (the (Endpoints cfg)) (Inl e) \<Longrightarrow> config_outcome cfg mode (Inl e)"
  by (cases e) (auto simp: ValidateEndpoint_outcome Let_def)

lemma check_mode_outcome:
  "header_ok cfg \<Longrightarrow> check_mode cfg mode = Inl e \<Longrightarrow> config_outcome cfg mode (Inl e)"
  by (auto simp: check_mode_def result_iff port_ok_32 port_ok_16 validationModeHost_def
      validationModeEnclave_def split: if_splits)

text \<open>The result of the checks is an outcome.\<close>

lemma check_config_outcome: "config_outcome cfg mode (check_config cfg mode)"
proof (cases "check_config cfg mode")
  case (Inr u)
  moreover from this have "config_ok cfg mode" by (simp flip: check_config_ok)
  ultimately show ?thesis by simp
next
  case (Inl e)
  show ?thesis
  proof (cases "header_ok cfg")
    case False
    with Inl show ?thesis
      by (auto simp: check_config_def header_ok_def schemaVersionV01_def result_iff maxEndpoints_def
          split: option.splits)
  next
    case True
    then obtain eps where eps: "Endpoints cfg = Some eps" by (auto simp: header_ok_def split: option.splits)
    with True have "check_config cfg mode =
        rbind (check_mode cfg mode) (\<lambda>_. check_endpoints 0 Map.empty Map.empty Map.empty eps)"
      by (simp add: check_config_def header_ok_def schemaVersionV01_def maxEndpoints_def)
    with Inl consider "check_mode cfg mode = Inl e"
      | "mode_ok cfg mode" "check_endpoints 0 Map.empty Map.empty Map.empty eps = Inl e"
      by (auto simp: result_iff check_mode_ok)
    then show ?thesis
      using True eps Inl check_mode_outcome loop_config_outcome check_endpoints_start [of eps]
      by cases auto
  qed
qed

section \<open>The outcomes exclude each other\<close>

fun blamed :: "config_error \<Rightarrow> nat" where
  "blamed (BadEndpoint i e) = i"
| "blamed (DuplicateHost i j) = i"
| "blamed (DuplicateVsockPort i j) = i"
| "blamed (DuplicateLocalAddr i j) = i"
| "blamed _ = 0"

lemma same_key:
  assumes "distinct (map f (take n eps))" "i < n" "j < n" "n \<le> length eps" "f (eps ! i) = f (eps ! j)"
  shows "i = j"
  using nth_eq_iff_index_eq [OF assms(1), of i j] assms(2-) by simp

lemma same_addr:
  assumes "distinct (local_addrs (take n eps))" "i < n" "j < n" "n \<le> length eps"
    "localAddr i (eps ! i) = localAddr j (eps ! j)"
  shows "i = j"
  using nth_eq_iff_index_eq [OF assms(1), of i j] assms(2-) by simp

text \<open>No prefix of the endpoints that contains the blamed one keeps all rules.\<close>

lemma blamed_breaks:
  assumes "loop_outcome eps (Inl e)" "blamed e < n" "n \<le> length eps" "list_all endpoint_ok (take n eps)"
    "distinct_keys (take n eps)"
  shows False
proof (cases e)
  case (BadEndpoint i f)
  with assms have "endpoint_ok (eps ! i)" "ValidateEndpoint (eps ! i) = Inl f" by (auto simp: list_all_length)
  then show False by (simp flip: ValidateEndpoint_endpoint_ok)
next
  case (DuplicateHost i j)
  with assms same_key [of host_key n eps i j] show False by (auto simp: distinct_keys_def)
next
  case (DuplicateVsockPort i j)
  with assms same_key [of VsockPort n eps i j] show False by (auto simp: distinct_keys_def)
next
  case (DuplicateLocalAddr i j)
  with assms same_addr [of n eps i j] show False by (auto simp: distinct_keys_def)
qed (use assms in auto)

lemma blamed_prefix:
  assumes "loop_outcome eps (Inl e)"
  shows "blamed e < length eps \<and> list_all endpoint_ok (take (blamed e) eps) \<and> distinct_keys (take (blamed e) eps)"
proof -
  have "list_all endpoint_ok (take i eps)" if "list_all endpoint_ok (take (Suc i) eps)" for i
    using that by (auto simp: list_all_length)
  with assms show ?thesis by (cases e) auto
qed

lemma blamed_unique:
  assumes "loop_outcome eps (Inl e)" "loop_outcome eps (Inl f)"
  shows "blamed e = blamed f"
proof -
  have "\<not> blamed a < blamed b" if "loop_outcome eps (Inl a)" "loop_outcome eps (Inl b)" for a b
    using blamed_breaks [OF that(1), of "blamed b"] blamed_prefix [OF that(2)] by auto
  with assms show ?thesis by (meson linorder_neqE_nat)
qed

text \<open>A key that is new at \<open>i\<close> has no earlier owner, and a repeated key has one only.\<close>

lemma new_key:
  "distinct (map f (take (Suc i) eps)) \<Longrightarrow> i < length eps \<Longrightarrow> j < i \<Longrightarrow> f (eps ! i) \<noteq> f (eps ! j)"
  using same_key [of f "Suc i" eps i j] by auto

lemma one_owner:
  "distinct (map f (take i eps)) \<Longrightarrow> i < length eps \<Longrightarrow> j < i \<Longrightarrow> k < i \<Longrightarrow>
   f (eps ! i) = f (eps ! j) \<Longrightarrow> f (eps ! i) = f (eps ! k) \<Longrightarrow> j = k"
  using same_key [of f i eps j k] by auto

lemma one_addr_owner:
  "distinct (local_addrs (take i eps)) \<Longrightarrow> i < length eps \<Longrightarrow> j < i \<Longrightarrow> k < i \<Longrightarrow>
   localAddr i (eps ! i) = localAddr j (eps ! j) \<Longrightarrow> localAddr i (eps ! i) = localAddr k (eps ! k) \<Longrightarrow> j = k"
  using same_addr [of i eps j k] by auto

lemma loop_outcome_unique:
  assumes "loop_outcome eps (Inl e)" "loop_outcome eps (Inl f)"
  shows "e = f"
proof -
  have good: "ValidateEndpoint (eps ! i) = Inr ()" if "i < length eps" "list_all endpoint_ok (take (Suc i) eps)" for i
    using that by (auto simp: ValidateEndpoint_endpoint_ok list_all_length)
  note same = blamed_unique [OF assms]
  from assms same good show ?thesis
    by (cases e; cases f)
      (auto simp: distinct_keys_def new_key [of host_key] new_key [of VsockPort]
        dest: one_owner [of host_key] one_owner [of VsockPort] one_addr_owner)
qed

text \<open>So the outcome is the result of the checks, and no other.\<close>

lemma config_outcome_loop:
  assumes "config_outcome cfg mode (Inl e)" "header_ok cfg" "mode_ok cfg mode"
  shows "loop_outcome (the (Endpoints cfg)) (Inl e)"
proof -
  obtain eps where "Endpoints cfg = Some eps" "length eps \<le> 191"
    using assms(2) by (auto simp: header_ok_def split: option.splits)
  with assms show ?thesis
    by (cases e) (auto simp: header_ok_def mode_ok_def validationModeHost_def validationModeEnclave_def
        ValidateEndpoint_outcome Let_def)
qed

lemma config_outcome_unique:
  assumes "config_outcome cfg mode r" "config_outcome cfg mode r'"
  shows "r = r'"
proof (cases "header_ok cfg \<and> mode_ok cfg mode")
  case True
  then obtain eps where eps: "Endpoints cfg = Some eps" by (auto simp: header_ok_def split: option.splits)
  have loop: "loop_outcome eps q" if "config_outcome cfg mode q" for q
  proof (cases q)
    case (Inl e)
    with config_outcome_loop [of cfg mode e] that True eps show ?thesis by simp
  next
    case (Inr u)
    with that eps distinct_binds [of eps] show ?thesis
      by (simp add: config_ok_def endpoints_ok_def distinct_keys_def maxEndpoints_def)
  qed
  show ?thesis
  proof (cases "loop_outcome eps (Inr ())")
    case True
    then show ?thesis
      using loop_outcome_ok [OF loop [OF assms(1)]] loop_outcome_ok [OF loop [OF assms(2)]] by simp
  next
    case False
    with loop [OF assms(1)] loop [OF assms(2)] loop_outcome_unique [of eps] show ?thesis
      by (cases r; cases r') auto
  qed
next
  case False
  have "\<not> config_ok cfg mode"
    using False by (auto simp: config_ok_def header_ok_def endpoints_ok_def split: option.splits)
  then obtain e e' where e: "r = Inl e" "r' = Inl e'" using assms by (cases r; cases r') auto
  from assms False show ?thesis unfolding e
    by (cases e; cases e') (auto simp: header_ok_def mode_ok_def validationModeHost_def validationModeEnclave_def
        split: option.splits)
qed

lemma config_outcome_iff: "check_config cfg mode = r \<longleftrightarrow> config_outcome cfg mode r"
  using check_config_outcome config_outcome_unique by metis

end
