(* ===== verification/Argo_Schema.thy ===== *)
theory Argo_Schema
  imports Argo_Errors
begin

text \<open>
  The configuration schema end to end: what \<open>ParseConfig\<close> and \<open>ValidateConfig\<close> guarantee, the
  document of a configuration and its way back through \<open>ParseConfig\<close>, and the treatment of
  unknown, repeated and missing fields.
\<close>

section \<open>Documents\<close>

definition opt_member :: "string \<Rightarrow> bool \<Rightarrow> json \<Rightarrow> (string \<times> json) list" where
  "opt_member key given v = (if given then [(key, v)] else [])"

definition num_doc :: "'w::len word \<Rightarrow> json" where
  "num_doc w = JNum (Itoa (unat w))"

definition endpoint_members :: "Endpoint \<Rightarrow> (string \<times> json) list" where
  "endpoint_members ep =
     opt_member ''host'' (hostSet ep) (JStr (Host ep))
     @ opt_member ''vsockPort'' (vsockPortSet ep) (num_doc (VsockPort ep))
     @ opt_member ''tcpPort'' (tcpPortSet ep) (num_doc (TCPPort ep))
     @ opt_member ''localPort'' (localPortSet ep) (num_doc (LocalPort ep))
     @ opt_member ''localIP'' (localIPSet ep) (JStr (LocalIP ep))"

definition endpoint_doc :: "Endpoint \<Rightarrow> json" where
  "endpoint_doc ep = JObj (endpoint_members ep)"

definition config_doc :: "Config \<Rightarrow> json" where
  "config_doc cfg =
     JObj ([(''schemaVersion'', JStr (SchemaVersion cfg)), (''httpPort'', num_doc (HTTPPort cfg)),
            (''httpVsockPort'', num_doc (HTTPVsockPort cfg)), (''httpTcpPort'', num_doc (HTTPTCPPort cfg))]
           @ (case Endpoints cfg of
                None \<Rightarrow> []
              | Some eps \<Rightarrow> [(''endpoints'', JArr (map endpoint_doc eps))]))"

text \<open>
  The presence flags agree with the fields, and the strings need no JSON escapes (a host name or
  an address that passes the validation never does).
\<close>

definition endpoint_wf :: "Endpoint \<Rightarrow> bool" where
  "endpoint_wf ep \<longleftrightarrow>
     plain (Host ep) \<and> plain (LocalIP ep)
     \<and> (hostSet ep \<or> Host ep = []) \<and> (vsockPortSet ep \<or> VsockPort ep = 0)
     \<and> (tcpPortSet ep \<or> TCPPort ep = 0) \<and> (localPortSet ep \<or> LocalPort ep = 0)
     \<and> (localIPSet ep \<or> LocalIP ep = [])"

definition config_wf :: "Config \<Rightarrow> bool" where
  "config_wf cfg \<longleftrightarrow>
     plain (SchemaVersion cfg)
     \<and> (case Endpoints cfg of None \<Rightarrow> \<not> endpointsSet cfg
        | Some eps \<Rightarrow> endpointsSet cfg \<and> list_all endpoint_wf eps)"

lemma raw_member_append [simp]:
  "raw_member (xs @ ys) k = (case raw_member ys k of None \<Rightarrow> raw_member xs k | Some v \<Rightarrow> Some v)"
  by (simp add: raw_member_def map_add_def split: option.split)

lemma raw_member_Nil [simp]: "raw_member [] k = None"
  by (simp add: raw_member_def)

lemma raw_member_opt [simp]:
  "raw_member (opt_member key given v) k = (if given \<and> k = key then Some v else None)"
  by (simp add: opt_member_def raw_member_def)

lemma unmarshal_num_doc [simp]:
  fixes w :: "'w::len word"
  assumes "LENGTH('w) \<le> 64"
  shows "unmarshal_uint (num_doc w) old = Some w"
proof -
  have w: "unat w < 2 ^ LENGTH('w)" by (rule unsigned_less)
  also have "(2::nat) ^ LENGTH('w) \<le> 2 ^ 64" using assms by (intro power_increasing) simp_all
  finally have "ParseUint 64 (Itoa (unat w)) = Some (unat w)" by (rule ParseUint_Itoa)
  with w show ?thesis by (simp add: num_doc_def)
qed

lemma raw_field_simps [simp]:
  "raw key = None \<Longrightarrow> raw_field raw key store e = Inr e"
  "raw key = Some v \<Longrightarrow> raw_field raw key store e = from_option (BadField key) (store v e)"
  by (simp_all add: raw_field_def)

lemma endpoint_members_keys: "list_all (\<lambda>m. fst m \<in> set endpoint_keys) (endpoint_members ep)"
  by (simp add: endpoint_members_def opt_member_def endpoint_keys_def)

lemma endpoint_members_raw:
  "raw_member (endpoint_members ep) ''host'' = (if hostSet ep then Some (JStr (Host ep)) else None)"
  "raw_member (endpoint_members ep) ''vsockPort'' =
     (if vsockPortSet ep then Some (num_doc (VsockPort ep)) else None)"
  "raw_member (endpoint_members ep) ''tcpPort'' =
     (if tcpPortSet ep then Some (num_doc (TCPPort ep)) else None)"
  "raw_member (endpoint_members ep) ''localPort'' =
     (if localPortSet ep then Some (num_doc (LocalPort ep)) else None)"
  "raw_member (endpoint_members ep) ''localIP'' =
     (if localIPSet ep then Some (JStr (LocalIP ep)) else None)"
  by (simp_all add: endpoint_members_def)

lemma Endpoint_UnmarshalJSON_doc:
  assumes "endpoint_wf ep"
  shows "Endpoint_UnmarshalJSON (endpoint_doc ep) zero_endpoint = Inr ep"
  using assms
  by (cases ep)
    (auto simp: Endpoint_UnmarshalJSON_def endpoint_doc_def endpoint_members_keys
      endpoint_members_raw raw_field_def store_host_def store_vsockPort_def store_tcpPort_def
      store_localPort_def store_localIP_def zero_endpoint_def endpoint_wf_def)

lemma unmarshal_elements_docs:
  "list_all endpoint_wf eps \<Longrightarrow> unmarshal_elements (map endpoint_doc eps) [] = Inr eps"
  by (induction eps) (simp_all add: Endpoint_UnmarshalJSON_doc)

lemma field_of_config_keys:
  "field_of config_keys ''schemaVersion'' = Some ''schemaVersion''"
  "field_of config_keys ''httpPort'' = Some ''httpPort''"
  "field_of config_keys ''httpVsockPort'' = Some ''httpVsockPort''"
  "field_of config_keys ''httpTcpPort'' = Some ''httpTcpPort''"
  "field_of config_keys ''endpoints'' = Some ''endpoints''"
  by (simp_all add: config_keys_def)

lemma config_member_doc:
  "config_member (''schemaVersion'', JStr s) (c, b) = Inr (c\<lparr>SchemaVersion := s\<rparr>, b)"
  "config_member (''httpPort'', num_doc p) (c, b) = Inr (c\<lparr>HTTPPort := p\<rparr>, b)"
  "config_member (''httpVsockPort'', num_doc w) (c, b) = Inr (c\<lparr>HTTPVsockPort := w\<rparr>, b)"
  "config_member (''httpTcpPort'', num_doc p) (c, b) = Inr (c\<lparr>HTTPTCPPort := p\<rparr>, b)"
  "list_all endpoint_wf eps \<Longrightarrow> config_member (''endpoints'', JArr (map endpoint_doc eps)) (c, []) =
     Inr (c\<lparr>Endpoints := Some eps\<rparr>, eps)"
  by (simp_all add: config_member_def field_of_config_keys unmarshal_elements_docs)

lemma raw_member_Cons: "raw_member ((key, v) # ms) k =
    (case raw_member ms k of None \<Rightarrow> if k = key then Some v else None | Some u \<Rightarrow> Some u)"
  by (simp add: raw_member_def map_add_def split: option.split)

lemma Config_UnmarshalJSON_doc:
  assumes "config_wf cfg"
  shows "Config_UnmarshalJSON (config_doc cfg) = Inr cfg"
proof (cases "Endpoints cfg")
  case None
  with assms show ?thesis
    by (cases cfg) (simp add: Config_UnmarshalJSON_def config_doc_def config_member_doc
        raw_member_Cons config_wf_def zero_config_def)
next
  case (Some eps)
  with assms show ?thesis
    by (cases cfg) (simp add: Config_UnmarshalJSON_def config_doc_def config_member_doc
        raw_member_Cons config_wf_def zero_config_def)
qed

lemma plain_members: "plain_json (JObj (xs @ ys)) \<longleftrightarrow> plain_json (JObj xs) \<and> plain_json (JObj ys)"
  by auto

lemma endpoint_doc_plain: "endpoint_wf ep \<Longrightarrow> plain_json (endpoint_doc ep)"
  unfolding endpoint_doc_def endpoint_members_def plain_members
  by (simp add: opt_member_def endpoint_wf_def num_doc_def number_text_Itoa plain_char_def)

lemma config_doc_plain: "config_wf cfg \<Longrightarrow> plain_json (config_doc cfg)"
  unfolding config_doc_def plain_members
  by (auto simp: config_wf_def num_doc_def number_text_Itoa plain_char_def endpoint_doc_plain
      list_all_iff split: option.splits)

lemma nesting_JObj_le: "\<forall>(k, v) \<in> set ms. nesting v \<le> n \<Longrightarrow> nesting (JObj ms) \<le> Suc n"
  by (auto simp: nesting.simps)

lemma nesting_JArr_le: "\<forall>v \<in> set vs. nesting v \<le> n \<Longrightarrow> nesting (JArr vs) \<le> Suc n"
  by (auto simp: nesting.simps)

lemma endpoint_doc_nesting: "nesting (endpoint_doc ep) \<le> 1"
  unfolding endpoint_doc_def One_nat_def
  by (rule nesting_JObj_le) (auto simp: endpoint_members_def opt_member_def num_doc_def nesting.simps)

lemma config_doc_nesting: "nesting (config_doc cfg) \<le> maxNestingDepth"
proof -
  have "nesting (JArr (map endpoint_doc eps)) \<le> 2" for eps
    using nesting_JArr_le [of "map endpoint_doc eps" 1] endpoint_doc_nesting by simp
  then have "nesting (config_doc cfg) \<le> Suc 2"
    unfolding config_doc_def
    by (intro nesting_JObj_le) (auto simp: num_doc_def nesting.simps(3-) split: option.splits)
  then show ?thesis by (simp add: maxNestingDepth_def)
qed

lemma ParseConfig_document:
  assumes "config_wf cfg" "list_all json_space ws"
    "length (render (config_doc cfg) @ ws) \<le> maxConfigBytes"
  shows "ParseConfig (render (config_doc cfg) @ ws) = Inr (normalizeConfig cfg)"
proof -
  have "Decode (render (config_doc cfg) @ ws) = Some (config_doc cfg, ws)"
    using assms(1) by (intro Decode_render config_doc_plain config_doc_nesting) (simp_all add: config_doc_def)
  with assms show ?thesis
    by (simp add: ParseConfig_def Config_UnmarshalJSON_doc ensureNoTrailingJSON_def at_eof_def)
qed

text \<open>
  C6: Every configuration survives its JSON document: \<open>ParseConfig\<close> of the text, with any white
  space after it, returns the configuration with the defaults filled in.
\<close>

theorem ParseConfig_doc:
  assumes "config_wf cfg" "list_all json_space ws"
    "length (render (config_doc cfg) @ ws) \<le> maxConfigBytes"
  shows "ParseConfig (render (config_doc cfg) @ ws) = Inr (normalizeConfig cfg)"
  by (rule ParseConfig_document [OF assms])

text \<open>A configuration for the examples: one endpoint on a port of its own, one with the defaults.\<close>

definition sample_endpoints :: "Endpoint list" where
  "sample_endpoints =
     [zero_endpoint\<lparr>hostSet := True, Host := ''api.example.com'', vsockPortSet := True, VsockPort := 8001,
        tcpPortSet := True, TCPPort := 8443\<rparr>,
      zero_endpoint\<lparr>hostSet := True, Host := ''kms.example.com'', vsockPortSet := True, VsockPort := 8002,
        localIPSet := True, LocalIP := ''127.0.0.9''\<rparr>]"

definition sample_config :: Config where
  "sample_config =
     \<lparr>SchemaVersion = ''v0.1'', HTTPPort = 3000, HTTPVsockPort = 3000, HTTPTCPPort = 3000,
      Endpoints = Some sample_endpoints, endpointsSet = True\<rparr>"

lemma sample_config_wf: "config_wf sample_config"
  by (simp add: sample_config_def config_wf_def sample_endpoints_def endpoint_wf_def
      zero_endpoint_def plain_char_def)

lemma sample_config_length: "length (render (config_doc sample_config) @ [CHR 0x0A]) \<le> maxConfigBytes"
  by (simp add: sample_config_def sample_endpoints_def config_doc_def endpoint_doc_def
      endpoint_members_def opt_member_def num_doc_def zero_endpoint_def member_text_def
      maxConfigBytes_def Itoa_small Itoa_large)

section \<open>Validation\<close>

text \<open>
  C2: \<open>ValidateConfig\<close> accepts a configuration exactly if, after the defaults are filled in, it
  has the schema version, an endpoints array of at most 191 well-formed endpoints, the ports its
  mode needs, and if no two endpoints share a host name (in any case), a VSOCK port, or the
  numeric address and port they are bound to inside the enclave.
\<close>

theorem ValidateConfig_accepts:
  "snd (ValidateConfig (Some cfg) mode) = Inr () \<longleftrightarrow> config_ok (normalizeConfig cfg) mode"
  by (simp add: ValidateConfig_def check_config_ok)

text \<open>
  C11: The result of \<open>ValidateConfig\<close> is determined by the rules and their order: it reports an error
  exactly if the rule of that error is broken and every rule before it in the code holds, for the
  configuration, its mode, the endpoints before the blamed one and the blamed endpoint itself; an
  endpoint that repeats a key is blamed together with the earlier one that has the key.
\<close>

theorem ValidateConfig_outcome:
  "snd (ValidateConfig (Some cfg) mode) = r \<longleftrightarrow> config_outcome (normalizeConfig cfg) mode r"
  by (simp add: ValidateConfig_def config_outcome_iff)

text \<open>
  C28: An endpoint is accepted exactly if its host is dot-separated labels of 1 to 63 letters,
  digits, hyphens and underscores, 253 bytes at most, its ports are in 1..65535 where they are
  given, and its local address, where given, is the text of an address in 127.0.0.0/8.
\<close>

theorem ValidateEndpoint_accepts: "ValidateEndpoint ep = Inr () \<longleftrightarrow> endpoint_ok ep"
  by (rule ValidateEndpoint_endpoint_ok)

text \<open>
  The IPv4 parser accepts exactly the canonical dotted quads: four decimal octets of at most
  255 without leading zeros, and it returns their values.
\<close>

theorem ParseAddr4_canonical:
  "ParseAddr4 s = Some (a, b, c, d) \<longleftrightarrow>
     max (max a b) (max c d) \<le> 255
     \<and> s = Itoa a @ ''.'' @ Itoa b @ ''.'' @ Itoa c @ ''.'' @ Itoa d"
  by (simp add: ParseAddr4_quad_iff dotted_quad_def conj_assoc)

lemma endpoint_ports:
  assumes "endpoint_ok ep" "normalize_endpoint ep = ep"
  shows "port_ok (TCPPort ep) \<and> port_ok (LocalPort ep) \<and> port_ok (VsockPort ep)"
proof -
  have "TCPPort ep = (if tcpPortSet ep then TCPPort ep else 443)"
    "LocalPort ep = (if localPortSet ep then LocalPort ep else 443)"
    using assms(2) normalize_endpoint_simps(8,9) by metis+
  then show ?thesis using assms(1) by (auto simp: endpoint_ok_def port_ok_def split: if_splits)
qed

lemma normalizeConfig_endpoints:
  "Endpoints (normalizeConfig cfg) = map_option (map normalize_endpoint) (Endpoints cfg)"
  by (simp add: normalizeConfig_def Let_def)

text \<open>
  C27: After a successful validation every endpoint of the configuration the caller goes on with
  can be served: its VSOCK, target and local ports are in 1..65535, its local address is a
  loopback address, and no two endpoints are bound to the same address and port.
\<close>

theorem validated_endpoints:
  assumes "ValidateConfig (Some cfg) mode = (Some cfg', Inr ())" "Endpoints cfg' = Some eps"
    "i < length eps"
  shows "port_ok (VsockPort (eps ! i)) \<and> port_ok (TCPPort (eps ! i)) \<and> port_ok (LocalPort (eps ! i))
    \<and> loopback_text (endpointLocalIP (eps ! i) i)
    \<and> distinct (map (\<lambda>j. (endpointLocalIP (eps ! j) j, LocalPort (eps ! j))) [0..<length eps])"
proof -
  from assms(1) have cfg': "cfg' = normalizeConfig cfg" and ok: "config_ok cfg' mode"
    by (auto simp: ValidateConfig_def check_config_ok)
  from ok assms(2) have eps: "list_all endpoint_ok eps" "length eps \<le> maxEndpoints" "distinct (binds eps)"
    by (auto simp: config_ok_def endpoints_ok_def maxEndpoints_def)
  have "normalize_endpoint (eps ! i) = eps ! i"
    using assms(2,3) by (auto simp: cfg' normalizeConfig_endpoints)
  moreover have "endpoint_ok (eps ! i)" using eps(1) assms(3) by (simp add: list_all_length)
  moreover have "distinct (map (\<lambda>j. (endpointLocalIP (eps ! j) j, LocalPort (eps ! j))) [0..<length eps])"
    using eps(3) by (force simp: binds_def distinct_map inj_on_def bind_ip_def)
  ultimately show ?thesis
    using endpoint_ports endpointLocalIP_loopback [of "eps ! i" i] eps(2) assms(3) by simp
qed

section \<open>Unknown, repeated and missing fields\<close>

lemma config_members_append:
  "config_members (xs @ ys) st = rbind (config_members xs st) (config_members ys)"
  by (induction xs arbitrary: st) (auto simp: rbind_def split: sum.split)

lemma config_member_unknown: "field_of config_keys key = None \<Longrightarrow> config_member (key, v) st = Inr st"
  by (cases st) (simp add: config_member_def)

text \<open>
  A top-level member that matches no field of the schema, in any case of its letters, changes
  nothing: application settings travel through argonaut without being read.
\<close>

theorem unknown_top_level_ignored:
  assumes "field_of config_keys key = None"
  shows "Config_UnmarshalJSON (JObj (xs @ (key, v) # ys)) = Config_UnmarshalJSON (JObj (xs @ ys))"
proof -
  have "key \<noteq> ''endpoints''" using assms field_of_config_keys(5) by auto
  then have "raw_member (xs @ (key, v) # ys) ''endpoints'' = raw_member (xs @ ys) ''endpoints''"
    by (simp add: raw_member_Cons split: option.split)
  moreover have "config_members ((key, v) # ys) = config_members ys"
    by (rule ext) (simp add: config_member_unknown assms)
  ultimately show ?thesis
    by (simp add: Config_UnmarshalJSON_def config_members_append del: raw_member_append config_members.simps)
qed

lemma Endpoint_UnmarshalJSON_unknown:
  "m \<in> set ms \<Longrightarrow> fst m \<notin> set endpoint_keys \<Longrightarrow>
   Endpoint_UnmarshalJSON (JObj ms) e = Inl UnknownEndpointField"
  by (auto simp: Endpoint_UnmarshalJSON_def list_all_iff require_def)

lemma unmarshal_elements_error:
  assumes "v \<in> set vs" "\<And>e. \<exists>err. Endpoint_UnmarshalJSON v e = Inl err"
  shows "\<exists>err. unmarshal_elements vs backing = Inl err"
  using assms
proof (induction vs arbitrary: backing)
  case (Cons u us)
  have "\<exists>err. rbind (Endpoint_UnmarshalJSON u e) (\<lambda>x.
      rbind (unmarshal_elements us bs) (\<lambda>xs. Inr (x # xs))) = Inl err" for e bs
  proof (cases "u = v")
    case True
    with Cons.prems(2) [of e] show ?thesis by auto
  next
    case False
    with Cons obtain err where "unmarshal_elements us bs = Inl err" by fastforce
    then show ?thesis by (cases "Endpoint_UnmarshalJSON u e") auto
  qed
  then show ?case by (cases backing) auto
qed simp

lemma config_members_error:
  assumes "m \<in> set ms" "\<And>st. \<exists>err. config_member m st = Inl err"
  shows "\<exists>err. config_members ms st = Inl err"
proof -
  from assms(1) obtain xs ys where ms: "ms = xs @ m # ys" by (auto simp: in_set_conv_decomp)
  show ?thesis
  proof (cases "config_members xs st")
    case (Inr st')
    with assms(2) [of st'] ms show ?thesis by (auto simp: config_members_append)
  qed (simp add: ms config_members_append)
qed

text \<open>
  C38: An endpoint with a field outside the schema makes \<open>ParseConfig\<close> fail, wherever it stands
  in the endpoints array and however the key of the array is written.
\<close>

theorem unknown_endpoint_field_rejected:
  assumes "Decode data = Some (JObj members, rest)" "(key, JArr vs) \<in> set members"
    "field_of config_keys key = Some ''endpoints''"
    "JObj ms \<in> set vs" "m \<in> set ms" "fst m \<notin> set endpoint_keys"
  shows "\<exists>e. ParseConfig data = Inl e"
proof -
  have "\<exists>err. Endpoint_UnmarshalJSON (JObj ms) e = Inl err" for e
    using Endpoint_UnmarshalJSON_unknown [OF assms(5,6)] by blast
  with assms(4) have fails: "\<exists>err. unmarshal_elements vs b = Inl err" for b
    by (rule unmarshal_elements_error)
  have "\<exists>err. config_member (key, JArr vs) st = Inl err" for st
  proof -
    obtain c b where st: "st = (c, b)" by force
    obtain err where "unmarshal_elements vs b = Inl err" using fails by blast
    moreover have "vs \<noteq> []" using assms(4) by auto
    ultimately show ?thesis by (simp add: st config_member_def assms(3))
  qed
  with assms(2) have "\<exists>err. config_members members (zero_config, []) = Inl err"
    by (rule config_members_error)
  with assms(1) show ?thesis by (auto simp: ParseConfig_def Config_UnmarshalJSON_def)
qed

text \<open>Members of an object that are no endpoints arrays leave the endpoints as they are.\<close>

definition no_endpoints :: "(string \<times> json) list \<Rightarrow> bool" where
  "no_endpoints ms \<longleftrightarrow> list_all (\<lambda>m. field_of config_keys (fst m) \<noteq> Some ''endpoints'') ms"

lemma no_endpoints_keeps:
  "no_endpoints ms \<Longrightarrow> config_members ms (c, b) = Inr (c', b') \<Longrightarrow> b' = b \<and> Endpoints c' = Endpoints c"
proof (induction ms arbitrary: c b)
  case (Cons m ms)
  obtain k v where m: "m = (k, v)" by force
  from Cons.prems(2) obtain c1 b1 where step: "config_member m (c, b) = Inr (c1, b1)"
    and rest: "config_members ms (c1, b1) = Inr (c', b')" by (auto simp: result_iff)
  have "field_of config_keys k \<in> {None, Some ''schemaVersion'', Some ''httpPort'', Some ''httpVsockPort'', Some ''httpTcpPort''}"
    using Cons.prems(1) m field_of_in [of config_keys k] by (cases "field_of config_keys k") (auto simp: no_endpoints_def config_keys_def)
  with step have "b1 = b" "Endpoints c1 = Endpoints c"
    by (auto simp: config_member_def m from_option_def split: option.splits)
  with Cons.IH [OF _ rest] Cons.prems(1) show ?case by (simp add: no_endpoints_def)
qed simp

lemma unmarshal_elements_nth:
  "unmarshal_elements vs b = Inr es \<Longrightarrow>
   length es = max (length vs) (length b)
   \<and> (\<forall>i < length vs. Endpoint_UnmarshalJSON (vs ! i) (if i < length b then b ! i else zero_endpoint) = Inr (es ! i))"
proof (induction vs arbitrary: b es)
  case (Cons v vs)
  let ?e = "case b of [] \<Rightarrow> zero_endpoint | x # _ \<Rightarrow> x" and ?b = "case b of [] \<Rightarrow> [] | _ # xs \<Rightarrow> xs"
  from Cons.prems obtain e es' where "Endpoint_UnmarshalJSON v ?e = Inr e" "unmarshal_elements vs ?b = Inr es'" "es = e # es'"
    by (cases b) (auto simp: result_iff)
  with Cons.IH [of ?b es'] show ?case by (cases b) (auto simp: nth_Cons split: nat.split)
qed simp

text \<open>The fields whose keys are absent keep their values and presence flags.\<close>

definition keeps_absent :: "(string \<times> json) list \<Rightarrow> Endpoint \<Rightarrow> Endpoint \<Rightarrow> bool" where
  "keeps_absent ms e e' \<longleftrightarrow>
     (''host'' \<notin> fst ` set ms \<longrightarrow> Host e' = Host e \<and> hostSet e' = hostSet e)
     \<and> (''vsockPort'' \<notin> fst ` set ms \<longrightarrow> VsockPort e' = VsockPort e \<and> vsockPortSet e' = vsockPortSet e)
     \<and> (''tcpPort'' \<notin> fst ` set ms \<longrightarrow> TCPPort e' = TCPPort e \<and> tcpPortSet e' = tcpPortSet e)
     \<and> (''localPort'' \<notin> fst ` set ms \<longrightarrow> LocalPort e' = LocalPort e \<and> localPortSet e' = localPortSet e)
     \<and> (''localIP'' \<notin> fst ` set ms \<longrightarrow> LocalIP e' = LocalIP e \<and> localIPSet e' = localIPSet e)"

lemma raw_member_absent: "key \<notin> fst ` set ms \<Longrightarrow> raw_member ms key = None"
  by (simp add: raw_member_def map_of_eq_None_iff)

text \<open>The steps of the decoding change one field each.\<close>

lemma raw_field_step:
  "raw_field raw ''host'' store_host e = Inr e' \<Longrightarrow>
    VsockPort e' = VsockPort e \<and> vsockPortSet e' = vsockPortSet e \<and> TCPPort e' = TCPPort e \<and> tcpPortSet e' = tcpPortSet e
    \<and> LocalPort e' = LocalPort e \<and> localPortSet e' = localPortSet e \<and> LocalIP e' = LocalIP e \<and> localIPSet e' = localIPSet e
    \<and> (raw ''host'' = None \<longrightarrow> Host e' = Host e \<and> hostSet e' = hostSet e)"
  "raw_field raw ''vsockPort'' store_vsockPort e = Inr e' \<Longrightarrow>
    Host e' = Host e \<and> hostSet e' = hostSet e \<and> TCPPort e' = TCPPort e \<and> tcpPortSet e' = tcpPortSet e
    \<and> LocalPort e' = LocalPort e \<and> localPortSet e' = localPortSet e \<and> LocalIP e' = LocalIP e \<and> localIPSet e' = localIPSet e
    \<and> (raw ''vsockPort'' = None \<longrightarrow> VsockPort e' = VsockPort e \<and> vsockPortSet e' = vsockPortSet e)"
  "raw_field raw ''tcpPort'' store_tcpPort e = Inr e' \<Longrightarrow>
    Host e' = Host e \<and> hostSet e' = hostSet e \<and> VsockPort e' = VsockPort e \<and> vsockPortSet e' = vsockPortSet e
    \<and> LocalPort e' = LocalPort e \<and> localPortSet e' = localPortSet e \<and> LocalIP e' = LocalIP e \<and> localIPSet e' = localIPSet e
    \<and> (raw ''tcpPort'' = None \<longrightarrow> TCPPort e' = TCPPort e \<and> tcpPortSet e' = tcpPortSet e)"
  "raw_field raw ''localPort'' store_localPort e = Inr e' \<Longrightarrow>
    Host e' = Host e \<and> hostSet e' = hostSet e \<and> VsockPort e' = VsockPort e \<and> vsockPortSet e' = vsockPortSet e
    \<and> TCPPort e' = TCPPort e \<and> tcpPortSet e' = tcpPortSet e \<and> LocalIP e' = LocalIP e \<and> localIPSet e' = localIPSet e
    \<and> (raw ''localPort'' = None \<longrightarrow> LocalPort e' = LocalPort e \<and> localPortSet e' = localPortSet e)"
  "raw_field raw ''localIP'' store_localIP e = Inr e' \<Longrightarrow>
    Host e' = Host e \<and> hostSet e' = hostSet e \<and> VsockPort e' = VsockPort e \<and> vsockPortSet e' = vsockPortSet e
    \<and> TCPPort e' = TCPPort e \<and> tcpPortSet e' = tcpPortSet e \<and> LocalPort e' = LocalPort e \<and> localPortSet e' = localPortSet e
    \<and> (raw ''localIP'' = None \<longrightarrow> LocalIP e' = LocalIP e \<and> localIPSet e' = localIPSet e)"
  by (auto simp: raw_field_def store_host_def store_vsockPort_def store_tcpPort_def store_localPort_def
      store_localIP_def from_option_def split: option.splits)

lemma Endpoint_UnmarshalJSON_keeps:
  assumes "Endpoint_UnmarshalJSON (JObj ms) e = Inr e'"
  shows "keeps_absent ms e e'"
proof -
  let ?raw = "raw_member ms"
  from assms obtain e1 e2 e3 e4 where
    "raw_field ?raw ''host'' store_host e = Inr e1" "raw_field ?raw ''vsockPort'' store_vsockPort e1 = Inr e2"
    "raw_field ?raw ''tcpPort'' store_tcpPort e2 = Inr e3" "raw_field ?raw ''localPort'' store_localPort e3 = Inr e4"
    "raw_field ?raw ''localIP'' store_localIP e4 = Inr e'"
    by (auto simp: Endpoint_UnmarshalJSON_def Let_def result_iff simp del: raw_field_simps)
  note steps = raw_field_step(1) [OF this(1)] raw_field_step(2) [OF this(2)] raw_field_step(3) [OF this(3)]
    raw_field_step(4) [OF this(4)] raw_field_step(5) [OF this(5)]
  have absent: "?raw key = None" if "key \<notin> fst ` set ms" for key
    using that by (rule raw_member_absent)
  then show ?thesis
    using steps absent by (simp add: keeps_absent_def)
qed

text \<open>
  C40: A second endpoints array, however the two keys are written and whatever other members stand
  around them, is not decoded from scratch: each of its elements is decoded on top of the endpoint
  that the first array left at the same index, so that every field it does not state, with its
  presence flag, is inherited from there; only elements behind the first array start from zero.
\<close>

theorem repeated_endpoints_merge:
  assumes "field_of config_keys k = Some ''endpoints''" "field_of config_keys k' = Some ''endpoints''"
    "no_endpoints xs" "no_endpoints ys" "no_endpoints zs"
    "Config_UnmarshalJSON (JObj (xs @ (k, JArr vs) # ys)) = Inr c1" "Endpoints c1 = Some es"
    "Config_UnmarshalJSON (JObj (xs @ (k, JArr vs) # ys @ (k', JArr ws) # zs)) = Inr c2" "Endpoints c2 = Some es'"
  shows "length es = length vs \<and> length es' = length ws
    \<and> (\<forall>i < length ws. Endpoint_UnmarshalJSON (ws ! i) (if i < length es then es ! i else zero_endpoint) = Inr (es' ! i))
    \<and> (\<forall>i ms. i < length ws \<and> i < length es \<and> ws ! i = JObj ms \<longrightarrow> keeps_absent ms (es ! i) (es' ! i))"
proof -
  from assms(6) obtain c b where "config_members (xs @ (k, JArr vs) # ys) (zero_config, []) = Inr (c, b)"
    "c1 = c\<lparr>endpointsSet := raw_member (xs @ (k, JArr vs) # ys) ''endpoints'' \<noteq> None\<rparr>"
    by (auto simp: Config_UnmarshalJSON_def result_iff)
  then have first: "config_members (xs @ (k, JArr vs) # ys) (zero_config, []) = Inr (c, b)" "Endpoints c = Some es"
    using assms(7) by simp_all
  have b: "b = es \<and> length es = length vs"
  proof -
    from first(1) obtain c3 b3 c4 b4 where "config_members xs (zero_config, []) = Inr (c3, b3)"
      "config_member (k, JArr vs) (c3, b3) = Inr (c4, b4)" "config_members ys (c4, b4) = Inr (c, b)"
      by (auto simp: config_members_append result_iff)
    with no_endpoints_keeps [OF assms(3), of zero_config "[]" c3 b3] no_endpoints_keeps [OF assms(4), of c4 b4 c b] first(2)
    have "b3 = []" "b4 = b" "Endpoints c4 = Some es" "config_member (k, JArr vs) (c3, b3) = Inr (c4, b4)" by simp_all
    then show ?thesis
      using assms(1) unmarshal_elements_nth [of vs "[]"]
      by (auto simp: config_member_def result_iff split: if_splits)
  qed
  from assms(8) obtain c5 b5 where "config_members ((xs @ (k, JArr vs) # ys) @ (k', JArr ws) # zs) (zero_config, []) = Inr (c5, b5)"
    "Endpoints c5 = Some es'" using assms(9) by (auto simp: Config_UnmarshalJSON_def result_iff)
  then obtain c6 b6 where second: "config_member (k', JArr ws) (c, b) = Inr (c6, b6)"
    "config_members zs (c6, b6) = Inr (c5, b5)" "Endpoints c5 = Some es'"
    using first(1) by (auto simp: config_members_append [of "xs @ (k, JArr vs) # ys"] result_iff simp del: append_assoc append_Cons)
  with no_endpoints_keeps [OF assms(5)] have "Endpoints c6 = Some es'" by auto
  with second(1) assms(2) unmarshal_elements_nth [of ws b]
  have later: "length es' = length ws
      \<and> (\<forall>i < length ws. Endpoint_UnmarshalJSON (ws ! i) (if i < length b then b ! i else zero_endpoint) = Inr (es' ! i))"
    by (auto simp: config_member_def result_iff split: if_splits)
  have "keeps_absent ms (es ! i) (es' ! i)" if "i < length ws" "i < length es" "ws ! i = JObj ms" for i ms
  proof (rule Endpoint_UnmarshalJSON_keeps)
    from later b that(1) have "Endpoint_UnmarshalJSON (ws ! i) (if i < length es then es ! i else zero_endpoint) = Inr (es' ! i)"
      by blast
    with that(2,3) show "Endpoint_UnmarshalJSON (JObj ms) (es ! i) = Inr (es' ! i)" by simp
  qed
  with later b show ?thesis by blast
qed

section \<open>Examples\<close>

text \<open>Each example applies one of the properties to a concrete configuration.\<close>

theorem ParseConfig_doc_example:
  "ParseConfig (render (config_doc sample_config) @ [CHR 0x0A]) =
     Inr (normalizeConfig sample_config)"
  using sample_config_length
  by (intro ParseConfig_doc) (simp_all add: sample_config_wf json_space_def)

lemma sample_validates:
  "ValidateConfig (Some sample_config) validationModeEnclave = (Some (normalizeConfig sample_config), Inr ())"
  by code_simp

theorem validated_endpoints_example:
  "loopback_text (endpointLocalIP (map normalize_endpoint sample_endpoints ! 1) 1)"
  using validated_endpoints [OF sample_validates, of "map normalize_endpoint sample_endpoints" 1]
  by (simp add: normalizeConfig_endpoints) (simp add: sample_config_def sample_endpoints_def)

theorem unknown_top_level_ignored_example:
  "Config_UnmarshalJSON (JObj [(''application'', JStr ''x''), (''httpPort'', JNum ''80'')]) =
     Config_UnmarshalJSON (JObj [(''httpPort'', JNum ''80'')])"
  using unknown_top_level_ignored [of "''application''" "[]" "JStr ''x''" "[(''httpPort'', JNum ''80'')]"]
  by (simp add: field_of_def config_keys_def foldName_def fold_rune_def)

theorem unknown_endpoint_field_rejected_example:
  \<open>\<exists>e. ParseConfig ''{"Endpoints":[{"host":"a.b","port":1}]}'' = Inl e\<close>
proof (rule unknown_endpoint_field_rejected)
  show \<open>Decode ''{"Endpoints":[{"host":"a.b","port":1}]}'' =
      Some (JObj [(''Endpoints'', JArr [JObj [(''host'', JStr ''a.b''), (''port'', JNum ''1'')]])], [])\<close>
    by (simp add: json_eval)
  show "field_of config_keys ''Endpoints'' = Some ''endpoints''"
    by (simp add: field_of_def config_keys_def foldName_def fold_rune_def)
qed (auto simp: endpoint_keys_def)

text \<open>The second array renames the endpoint and silently keeps the address of the first.\<close>

definition merged_endpoint :: Endpoint where
  "merged_endpoint = zero_endpoint\<lparr>hostSet := True, Host := ''b'', localIPSet := True, LocalIP := ''127.0.0.9''\<rparr>"

definition first_array :: json where
  "first_array = JArr [JObj [(''host'', JStr ''a''), (''localIP'', JStr ''127.0.0.9'')]]"

lemma sample_keys:
  "field_of config_keys ''app'' = None" "field_of config_keys ''Endpoints'' = Some ''endpoints''"
  by (simp_all add: field_of_def config_keys_def foldName_def fold_rune_def)

lemma repeated_arrays:
  "Config_UnmarshalJSON (JObj ([(''app'', JNull)] @ (''endpoints'', first_array) # [])) =
    Inr (zero_config\<lparr>Endpoints := Some [merged_endpoint\<lparr>Host := ''a''\<rparr>], endpointsSet := True\<rparr>)"
  "Config_UnmarshalJSON (JObj ([(''app'', JNull)] @ (''endpoints'', first_array)
      # [] @ (''Endpoints'', JArr [JObj [(''host'', JStr ''b'')]]) # [])) =
    Inr (zero_config\<lparr>Endpoints := Some [merged_endpoint], endpointsSet := True\<rparr>)"
proof -
  note eval = sample_keys Config_UnmarshalJSON_def config_member_def field_of_config_keys raw_member_Cons
    Endpoint_UnmarshalJSON_def endpoint_keys_def raw_field_def store_host_def store_localIP_def merged_endpoint_def
    first_array_def
  show "Config_UnmarshalJSON (JObj ([(''app'', JNull)] @ (''endpoints'', first_array) # [])) =
      Inr (zero_config\<lparr>Endpoints := Some [merged_endpoint\<lparr>Host := ''a''\<rparr>], endpointsSet := True\<rparr>)"
    by (simp add: eval)
  show "Config_UnmarshalJSON (JObj ([(''app'', JNull)] @ (''endpoints'', first_array)
        # [] @ (''Endpoints'', JArr [JObj [(''host'', JStr ''b'')]]) # [])) =
      Inr (zero_config\<lparr>Endpoints := Some [merged_endpoint], endpointsSet := True\<rparr>)"
    by (simp add: eval)
qed

theorem repeated_endpoints_merge_example:
  "keeps_absent [(''host'', JStr ''b'')] (merged_endpoint\<lparr>Host := ''a''\<rparr>) merged_endpoint"
proof -
  have keys: "field_of config_keys ''endpoints'' = Some ''endpoints''" "field_of config_keys ''Endpoints'' = Some ''endpoints''"
    "no_endpoints [(''app'', JNull)]" "no_endpoints []"
    by (simp_all add: sample_keys field_of_config_keys no_endpoints_def)
  show ?thesis
    using repeated_endpoints_merge [OF keys(1,2,3,4,4) repeated_arrays(1) [unfolded first_array_def] _
        repeated_arrays(2) [unfolded first_array_def], of "[merged_endpoint\<lparr>Host := ''a''\<rparr>]" "[merged_endpoint]"]
    by simp
qed

end
