(* ===== verification/Argo_Hosts.thy ===== *)
theory Argo_Hosts
  imports Argo_Schema
begin

text \<open>
  \<open>hosts.go\<close>: the managed block of \<open>/etc/hosts\<close> and its atomic replacement. The file system is
  a map from paths to files; what a system call reports is an argument, so the theorems hold for
  every pattern of failures. \<open>writeFileAtomic\<close> returns every state the file system goes through.
\<close>

section \<open>Rendering\<close>

definition hostsPath :: string where
  "hostsPath = ''/etc/hosts''"

definition hostsBeginMarker :: string where
  "hostsBeginMarker = ''# argonaut begin''"

definition hostsEndMarker :: string where
  "hostsEndMarker = ''# argonaut end''"

definition stripManagedHostsBlock :: "string \<Rightarrow> string" where
  "stripManagedHostsBlock existing =
     (case Index existing hostsBeginMarker of
        None \<Rightarrow> existing
      | Some b \<Rightarrow>
          (case Index (drop b existing) hostsEndMarker of
             None \<Rightarrow> TrimRight (take b existing) [lf] @ [lf]
           | Some endRel \<Rightarrow>
               take b existing
               @ dropWhile (\<lambda>c. c = lf \<or> c = cr) (drop (b + endRel + length hostsEndMarker) existing)))"

fun validate_all :: "Endpoint list \<Rightarrow> endpoint_error + unit" where
  "validate_all [] = Inr ()"
| "validate_all (ep # eps) = rbind (ValidateEndpoint ep) (\<lambda>_. validate_all eps)"

definition host_line :: "nat \<Rightarrow> Endpoint \<Rightarrow> string" where
  "host_line i ep = endpointLocalIP ep i @ ''   '' @ Host ep"

fun host_lines :: "nat \<Rightarrow> Endpoint list \<Rightarrow> string" where
  "host_lines i [] = []"
| "host_lines i (ep # eps) = host_line i ep @ lf # host_lines (i + 1) eps"

definition hosts_block :: "Endpoint list \<Rightarrow> string" where
  "hosts_block eps = hostsBeginMarker @ lf # host_lines 0 eps @ hostsEndMarker @ [lf]"

text \<open>The part of \<open>mergeHosts\<close> that prepares the content in front of the block.\<close>

definition hosts_base :: "string \<Rightarrow> string" where
  "hosts_base existing =
     (let base = TrimRight (stripManagedHostsBlock existing) [lf]
      in if TrimSpace base = [] then ''127.0.0.1   localhost'' else base)"

definition mergeHosts :: "string \<Rightarrow> Endpoint list \<Rightarrow> endpoint_error + string" where
  "mergeHosts existing eps =
     rbind (validate_all eps) (\<lambda>_. Inr (hosts_base existing @ [lf, lf] @ hosts_block eps))"

definition renderHosts :: "Endpoint list \<Rightarrow> endpoint_error + string" where
  "renderHosts eps = mergeHosts (''127.0.0.1   localhost'' @ [lf]) eps"

section \<open>The file system\<close>

record hosts_file =
  data :: string
  mode :: nat
  synced :: bool

type_synonym fs = "string \<rightharpoonup> hosts_file"

datatype io_error = CreateFailed | WriteFailed | ChmodFailed | SyncFailed | CloseFailed | RenameFailed

text \<open>
  What the system calls report: the random part of the temporary name or a failure of
  \<open>os.CreateTemp\<close>, the number of bytes written before a failing \<open>Write\<close>, and whether the others
  succeed.
\<close>

record outcomes =
  temp_name :: "string option"
  write_fails :: "nat option"
  chmod_ok :: bool
  sync_ok :: bool
  close_ok :: bool
  rename_ok :: bool
  remove_ok :: bool
  dir_open_ok :: bool
  dir_sync_ok :: bool

definition syncDir :: "outcomes \<Rightarrow> io_error + unit" where
  "syncDir out =
     (if \<not> dir_open_ok out then Inl CreateFailed
      else require (dir_sync_ok out) SyncFailed)"

text \<open>\<open>filepath.Dir\<close> of a clean absolute path such as \<open>hostsPath\<close>.\<close>

definition Dir :: "string \<Rightarrow> string" where
  "Dir path =
     (let d = rev (tl (dropWhile (\<lambda>c. c \<noteq> CHR ''/'') (rev path))) in if d = [] then ''/'' else d)"

definition temp_path :: "string \<Rightarrow> string \<Rightarrow> string" where
  "temp_path dir rand = dir @ ''/.argonaut-hosts-'' @ rand"

definition Remove :: "outcomes \<Rightarrow> string \<Rightarrow> fs \<Rightarrow> fs" where
  "Remove out path fs = (if remove_ok out then fs(path := None) else fs)"

definition Rename :: "string \<Rightarrow> string \<Rightarrow> fs \<Rightarrow> fs" where
  "Rename old new fs = (fs(new := fs old))(old := None)"

text \<open>
  \<open>writeFileAtomic\<close>: the states after each system call, newest last, and the result. The
  deferred \<open>os.Remove\<close> is the last call of every path once the temporary file exists.
\<close>

definition writeFileAtomic ::
  "outcomes \<Rightarrow> string \<Rightarrow> string \<Rightarrow> nat \<Rightarrow> fs \<Rightarrow> fs list \<times> (io_error + unit)" where
  "writeFileAtomic out path content perm fs =
     (case temp_name out of
        None \<Rightarrow> ([fs], Inl CreateFailed)
      | Some rand \<Rightarrow>
          let tmp = temp_path (Dir path) rand;
              created = \<lparr>data = [], mode = 384, synced = False\<rparr>;
              fs1 = fs(tmp \<mapsto> created)
          in (case write_fails out of
                Some n \<Rightarrow>
                  let fs2 = fs1(tmp \<mapsto> created\<lparr>data := take n content\<rparr>)
                  in ([fs, fs1, fs2, Remove out tmp fs2], Inl WriteFailed)
              | None \<Rightarrow>
                  let written = created\<lparr>data := content\<rparr>;
                      fs2 = fs1(tmp \<mapsto> written)
                  in if \<not> chmod_ok out then ([fs, fs1, fs2, Remove out tmp fs2], Inl ChmodFailed)
                  else let fs3 = fs2(tmp \<mapsto> written\<lparr>mode := perm\<rparr>)
                  in if \<not> sync_ok out then ([fs, fs1, fs2, fs3, Remove out tmp fs3], Inl SyncFailed)
                  else let fs4 = fs3(tmp \<mapsto> written\<lparr>mode := perm, synced := True\<rparr>)
                  in if \<not> close_ok out then ([fs, fs1, fs2, fs3, fs4, Remove out tmp fs4], Inl CloseFailed)
                  else if \<not> rename_ok out
                    then ([fs, fs1, fs2, fs3, fs4, Remove out tmp fs4], Inl RenameFailed)
                  else let fs5 = Rename tmp path fs4; ignored = syncDir out
                  in ([fs, fs1, fs2, fs3, fs4, fs5, Remove out tmp fs5], Inr ())))"

datatype hosts_error = ReadHosts | MergeHosts endpoint_error | WriteHosts io_error

text \<open>
  \<open>writeHosts\<close>: \<open>read_ok\<close> is false for a read error other than a missing file, which counts as
  empty content.
\<close>

definition writeHosts ::
  "bool \<Rightarrow> outcomes \<Rightarrow> string \<Rightarrow> Endpoint list \<Rightarrow> fs \<Rightarrow> fs list \<times> (hosts_error + unit)" where
  "writeHosts read_ok out path eps fs =
     (if \<not> read_ok then ([fs], Inl ReadHosts)
      else
        (let existing = (case fs path of None \<Rightarrow> [] | Some f \<Rightarrow> data f)
         in (case mergeHosts existing eps of
               Inl e \<Rightarrow> ([fs], Inl (MergeHosts e))
             | Inr content \<Rightarrow>
                 (case writeFileAtomic out path content 420 fs of
                    (trace, r) \<Rightarrow> (trace, map_err WriteHosts r)))))"

section \<open>The shape of the merged file\<close>

lemma validate_all_iff: "validate_all eps = Inr () \<longleftrightarrow> list_all endpoint_ok eps"
  by (induction eps) (simp_all add: result_iff ValidateEndpoint_endpoint_ok)

text \<open>The bytes of an endpoint's line: letters, digits, dots, hyphens, underscores and blanks.\<close>

definition line_char :: "char \<Rightarrow> bool" where
  "line_char c \<longleftrightarrow> label_char c \<or> c = CHR ''.''"

lemma line_char_props:
  assumes "line_char c"
  shows "ord c < 128" "\<not> is_space (ord c)" "c \<noteq> lf" "c \<noteq> cr" "c \<noteq> CHR ''#''" "c \<noteq> CHR '' ''"
    "plain_char c"
  using assms
  by (auto simp: line_char_def label_char_def is_lower_def is_upper_def is_digit_def is_space_def
      plain_char_def)

lemma dotted_chars: "x \<in> set (dotted ls) \<Longrightarrow> x = CHR ''.'' \<or> (\<exists>l \<in> set ls. x \<in> set l)"
  by (induction ls rule: dotted.induct) auto

lemma host_chars: "endpoint_ok ep \<Longrightarrow> Host ep \<noteq> [] \<and> list_all line_char (Host ep)"
  using dotted_not_Nil
  by (fastforce simp: endpoint_ok_def list_all_iff line_char_def hostname_label_def dest!: dotted_chars)

lemma default_ip_chars: "list_all line_char (''127.0.0.'' @ Itoa n)"
proof -
  have "list_all line_char (Itoa n)"
    by (auto simp: list_all_iff line_char_def label_char_def dest: Itoa_set)
  then show ?thesis by (simp add: line_char_def label_char_def is_digit_def)
qed

lemma local_ip_chars: "endpoint_ok ep \<Longrightarrow> endpointLocalIP ep i \<noteq> [] \<and> list_all line_char (endpointLocalIP ep i)"
proof (cases "LocalIP ep = []")
  case True
  then show ?thesis using default_ip_chars [of "64 + i"] by (simp add: endpointLocalIP_def)
next
  case False
  assume "endpoint_ok ep"
  with False have "loopback_text (LocalIP ep)" by (simp add: endpoint_ok_def)
  then have "list_all line_char (LocalIP ep)"
    unfolding list_all_iff using loopback_text_chars by (auto simp: line_char_def label_char_def)
  with False show ?thesis by (simp add: endpointLocalIP_def)
qed

lemma plain_word_line_char: "w \<noteq> [] \<Longrightarrow> list_all line_char w \<Longrightarrow> plain_word w"
  using line_char_props by (auto simp: plain_word_def list_all_iff)

lemma Fields_space: "Fields (CHR '' '' # s) = Fields s"
  by (simp add: Fields_def is_space_def emit_def)

lemma Fields_host_line:
  assumes "endpoint_ok ep"
  shows "Fields (host_line i ep) = [endpointLocalIP ep i, Host ep]"
proof -
  have "plain_word (endpointLocalIP ep i)" "plain_word (Host ep)"
    using local_ip_chars [OF assms] host_chars [OF assms] by (auto intro: plain_word_line_char)
  then show ?thesis by (simp add: host_line_def Fields_word_space Fields_space Fields_word)
qed

lemma host_line_chars: "endpoint_ok ep \<Longrightarrow> x \<in> set (host_line i ep) \<Longrightarrow> line_char x \<or> x = CHR '' ''"
  using local_ip_chars [of ep i] host_chars [of ep] by (auto simp: host_line_def list_all_iff)

lemma host_line_no_lf: "endpoint_ok ep \<Longrightarrow> lf \<notin> set (host_line i ep)"
  using host_line_chars [of ep lf i] line_char_props(3) [of lf] by auto

lemma host_lines_concat:
  "host_lines i eps = concat (map (\<lambda>l. l @ [lf]) (map (\<lambda>j. host_line (i + j) (eps ! j)) [0..<length eps]))"
proof (induction eps arbitrary: i)
  case (Cons ep eps)
  have "[0..<length (ep # eps)] = 0 # map Suc [0..<length eps]" by (simp add: map_Suc_upt upt_conv_Cons del: upt_Suc)
  with Cons [of "i + 1"] show ?case by (simp add: comp_def)
qed simp

text \<open>The lines of the managed block.\<close>

definition block_lines :: "Endpoint list \<Rightarrow> string list" where
  "block_lines eps =
     hostsBeginMarker # map (\<lambda>i. host_line i (eps ! i)) [0..<length eps] @ [hostsEndMarker]"

lemma hosts_block_lines: "hosts_block eps = concat (map (\<lambda>l. l @ [lf]) (block_lines eps))"
  using host_lines_concat [of 0 eps] by (simp add: hosts_block_def block_lines_def)

lemma block_lines_no_lf: "list_all endpoint_ok eps \<Longrightarrow> \<forall>l \<in> set (block_lines eps). lf \<notin> set l"
  using host_line_no_lf
  by (auto simp: block_lines_def hostsBeginMarker_def hostsEndMarker_def list_all_length)

lemma Split_snoc_line: "Split (s @ [d, d] @ t) d = Split s d @ [[]] @ Split t d"
  by (induction s) (auto split: list.splits)

lemma mergeHosts_ok:
  "list_all endpoint_ok eps \<Longrightarrow> mergeHosts existing eps = Inr (hosts_base existing @ [lf, lf] @ hosts_block eps)"
  using validate_all_iff [of eps] by (simp add: mergeHosts_def)

lemma merged_lines:
  assumes "list_all endpoint_ok eps"
  shows "Split (hosts_base existing @ [lf, lf] @ hosts_block eps) lf =
    Split (hosts_base existing) lf @ [[]] @ block_lines eps @ [[]]"
  using Split_join_lines [OF block_lines_no_lf [OF assms], of "[]"]
  by (simp only: Split_snoc_line hosts_block_lines append_Nil2 Split.simps)

section \<open>Stripping the managed block\<close>

lemma markers [simp]:
  "hostsBeginMarker \<noteq> []" "hostsEndMarker \<noteq> []"
  "lf \<notin> set hostsBeginMarker" "lf \<notin> set hostsEndMarker"
  "hd hostsEndMarker = CHR ''#''"
  by (simp_all add: hostsBeginMarker_def hostsEndMarker_def)

lemma begin_without_end: "Index hostsBeginMarker hostsEndMarker = None"
  by (simp add: hostsBeginMarker_def hostsEndMarker_def)

text \<open>The first begin marker starts a line; nothing before that line contains one.\<close>

lemma Index_begin:
  assumes "\<not> sublist hostsBeginMarker a"
  shows "Index (a @ lf # hostsBeginMarker @ t) hostsBeginMarker = Some (Suc (length a))"
  using assms Index_append_avoid [of lf hostsBeginMarker a "hostsBeginMarker @ t"]
  by (simp add: Index_None_iff [symmetric] Index_prefix)

lemma Index_end:
  "Index (hostsBeginMarker @ lf # s) hostsEndMarker =
    map_option (\<lambda>i. Suc (length hostsBeginMarker) + i) (Index s hostsEndMarker)"
  by (cases "Index s hostsEndMarker")
    (simp_all add: Index_append_avoid [of lf hostsEndMarker hostsBeginMarker s] begin_without_end)

lemma strip_terminated:
  assumes "\<not> sublist hostsBeginMarker a" "Index m hostsEndMarker = Some i"
  shows "stripManagedHostsBlock (a @ lf # hostsBeginMarker @ lf # m) =
    a @ lf # dropWhile (\<lambda>c. c = lf \<or> c = cr) (drop (i + length hostsEndMarker) m)"
proof -
  let ?s = "a @ lf # hostsBeginMarker @ lf # m"
  have "drop (Suc (length a)) ?s = hostsBeginMarker @ lf # m" "take (Suc (length a)) ?s = a @ [lf]"
    by simp_all
  moreover have "drop (Suc (length a) + (Suc (length hostsBeginMarker) + i) + length hostsEndMarker) ?s =
      drop (i + length hostsEndMarker) m" by simp
  ultimately show ?thesis
    using assms Index_begin [of a "lf # m"] by (simp add: stripManagedHostsBlock_def Index_end)
qed

lemma strip_unterminated:
  assumes "\<not> sublist hostsBeginMarker a" "Index m hostsEndMarker = None"
  shows "stripManagedHostsBlock (a @ lf # hostsBeginMarker @ lf # m) = TrimRight a [lf] @ [lf]"
proof -
  let ?s = "a @ lf # hostsBeginMarker @ lf # m"
  have "drop (Suc (length a)) ?s = hostsBeginMarker @ lf # m" "take (Suc (length a)) ?s = a @ [lf]"
    by simp_all
  then show ?thesis
    using assms Index_begin [of a "lf # m"] by (simp add: stripManagedHostsBlock_def Index_end)
qed

lemma strip_unmarked: "\<not> sublist hostsBeginMarker s \<Longrightarrow> stripManagedHostsBlock s = s"
  by (simp add: stripManagedHostsBlock_def Index_None_iff [symmetric])

lemma host_lines_no_hash: "list_all endpoint_ok eps \<Longrightarrow> CHR ''#'' \<notin> set (host_lines i eps)"
proof (induction eps arbitrary: i)
  case (Cons ep eps)
  then have "CHR ''#'' \<notin> set (host_line i ep)"
    using host_line_chars [of ep "CHR ''#''" i] line_char_props(5) [of "CHR ''#''"] by auto
  with Cons show ?case by simp
qed simp

lemma strip_merged:
  assumes "\<not> sublist hostsBeginMarker b" "list_all endpoint_ok eps"
  shows "stripManagedHostsBlock (b @ [lf, lf] @ hosts_block eps) = b @ [lf, lf]"
proof -
  have "\<not> sublist hostsBeginMarker (b @ [lf])"
    using assms(1) Index_append_avoid [of lf hostsBeginMarker b "[]"] by (simp add: Index_None_iff [symmetric])
  moreover have "Index (host_lines 0 eps @ hostsEndMarker @ [lf]) hostsEndMarker = Some (length (host_lines 0 eps))"
    using host_lines_no_hash [OF assms(2)] by (intro Index_skip) simp_all
  ultimately show ?thesis
    using strip_terminated [of "b @ [lf]" "host_lines 0 eps @ hostsEndMarker @ [lf]"]
    by (simp add: hosts_block_def)
qed

lemma TrimSpace_default: "TrimSpace ''127.0.0.1   localhost'' = ''127.0.0.1   localhost''"
  by (rule TrimSpace_id) (simp_all add: is_space_def)

lemma hosts_base_trimmed: "TrimRight (hosts_base s) [lf] = hosts_base s \<and> TrimSpace (hosts_base s) \<noteq> []"
  by (simp add: hosts_base_def Let_def TrimSpace_default) (simp add: TrimRight_id)

lemma hosts_base_unmarked:
  assumes "\<not> sublist hostsBeginMarker (stripManagedHostsBlock s)"
  shows "\<not> sublist hostsBeginMarker (hosts_base s)"
proof -
  have "prefix (TrimRight (stripManagedHostsBlock s) [lf]) (stripManagedHostsBlock s)"
    using TrimRight_prefix [of "stripManagedHostsBlock s" "[lf]"] by (auto simp: prefix_def)
  then have "\<not> sublist hostsBeginMarker (TrimRight (stripManagedHostsBlock s) [lf])"
    using assms sublist_order.order_trans prefix_imp_sublist by blast
  moreover have "\<not> sublist hostsBeginMarker ''127.0.0.1   localhost''"
    by (simp only: Index_None_iff [symmetric]) (simp add: hostsBeginMarker_def)
  ultimately show ?thesis by (simp add: hosts_base_def Let_def)
qed

lemma hosts_base_merged:
  assumes "\<not> sublist hostsBeginMarker (stripManagedHostsBlock s)" "list_all endpoint_ok eps"
  shows "hosts_base (hosts_base s @ [lf, lf] @ hosts_block eps) = hosts_base s"
proof -
  have "TrimRight (hosts_base s @ [lf, lf]) [lf] = hosts_base s"
    using hosts_base_trimmed [of s] TrimRight_append_cut [of "[lf, lf]" "[lf]" "hosts_base s"] by simp
  then show ?thesis
    using strip_merged [OF hosts_base_unmarked [OF assms(1)] assms(2)] hosts_base_trimmed [of s]
    by (simp only: hosts_base_def [of "hosts_base s @ [lf, lf] @ hosts_block eps"] Let_def) simp
qed

section \<open>Properties of the merged file\<close>

text \<open>
  C10: No configuration can inject a line into the hosts file: the lines of the merged file are
  the lines kept from the old content, an empty line, the begin marker, one line for each
  endpoint, the end marker and the final newline, and the line of an endpoint reads as exactly
  two fields, its local address and its host name.
\<close>

theorem mergeHosts_lines:
  assumes "mergeHosts existing eps = Inr out"
  shows "Split out lf = Split (hosts_base existing) lf @ [[]] @ [hostsBeginMarker]
      @ map (\<lambda>i. host_line i (eps ! i)) [0..<length eps] @ [hostsEndMarker, []]
    \<and> map Fields (map (\<lambda>i. host_line i (eps ! i)) [0..<length eps]) =
        map (\<lambda>i. [endpointLocalIP (eps ! i) i, Host (eps ! i)]) [0..<length eps]"
proof -
  from assms have ok: "list_all endpoint_ok eps"
    and out: "out = hosts_base existing @ [lf, lf] @ hosts_block eps"
    by (auto simp: mergeHosts_def result_iff validate_all_iff)
  from ok have "map Fields (map (\<lambda>i. host_line i (eps ! i)) [0..<length eps]) =
      map (\<lambda>i. [endpointLocalIP (eps ! i) i, Host (eps ! i)]) [0..<length eps]"
    by (simp add: list_all_length Fields_host_line)
  then show ?thesis unfolding out merged_lines [OF ok] by (simp add: block_lines_def)
qed

text \<open>Merges one after the other, as restarts of the enclave process make them.\<close>

fun merge_all :: "string \<Rightarrow> Endpoint list list \<Rightarrow> endpoint_error + string" where
  "merge_all existing [] = Inr existing"
| "merge_all existing (eps # later) = rbind (mergeHosts existing eps) (\<lambda>out. merge_all out later)"

lemma merged_base:
  assumes "mergeHosts existing eps = Inr out" "\<not> sublist hostsBeginMarker (stripManagedHostsBlock existing)"
  shows "hosts_base out = hosts_base existing \<and> \<not> sublist hostsBeginMarker (stripManagedHostsBlock out)"
proof -
  from assms(1) have ok: "list_all endpoint_ok eps" and out: "out = hosts_base existing @ [lf, lf] @ hosts_block eps"
    by (auto simp: mergeHosts_def result_iff validate_all_iff)
  have base: "\<not> sublist hostsBeginMarker (hosts_base existing)" by (rule hosts_base_unmarked [OF assms(2)])
  then have "\<not> sublist hostsBeginMarker (hosts_base existing @ lf # [lf])"
    using Index_append_avoid [of lf hostsBeginMarker "hosts_base existing" "[lf]"]
      Index_append_avoid [of lf hostsBeginMarker "[]" "[]"]
    by (simp add: Index_None_iff [symmetric])
  with strip_merged [OF base ok] hosts_base_merged [OF assms(2) ok] show ?thesis
    unfolding out by simp
qed

text \<open>
  C14: Merging again replaces the managed block: if the file has at most one managed block (no begin
  marker is left when the block that the program finds is taken out), then after any number of
  merges, whatever endpoints they were for, the file is the one that the last of them alone makes
  of the original, and it has one managed block again. (In a file with two blocks only the first is
  replaced.)
\<close>

theorem mergeHosts_again:
  assumes "merge_all existing (earlier @ [eps]) = Inr out"
    "\<not> sublist hostsBeginMarker (stripManagedHostsBlock existing)"
  shows "mergeHosts existing eps = Inr out \<and> \<not> sublist hostsBeginMarker (stripManagedHostsBlock out)"
  using assms
proof (induction earlier arbitrary: existing)
  case Nil
  then have "mergeHosts existing eps = Inr out" by (simp add: result_iff)
  with merged_base Nil.prems(2) show ?case by blast
next
  case (Cons eps' earlier)
  then obtain mid where mid: "mergeHosts existing eps' = Inr mid" "merge_all mid (earlier @ [eps]) = Inr out"
    by (auto simp: result_iff)
  note base = merged_base [OF mid(1) Cons.prems(2)]
  then have "mergeHosts mid eps = mergeHosts existing eps" by (simp only: mergeHosts_def)
  with Cons.IH [OF mid(2)] base show ?case by simp
qed

text \<open>
  Content around an old managed block is preserved: with the block (and the line breaks
  behind it) taken out of the file, the merge gives the same result.
\<close>

theorem mergeHosts_drops_old_block:
  assumes "\<not> sublist hostsBeginMarker before" "\<not> sublist hostsEndMarker old"
    "\<not> sublist hostsBeginMarker (dropWhile (\<lambda>c. c = lf \<or> c = cr) after)"
  shows "mergeHosts (before @ lf # hostsBeginMarker @ lf # old @ lf # hostsEndMarker @ after) eps =
    mergeHosts (before @ lf # dropWhile (\<lambda>c. c = lf \<or> c = cr) after) eps"
proof -
  have "Index (old @ lf # hostsEndMarker @ after) hostsEndMarker = Some (Suc (length old))"
    using assms(2) Index_append_avoid [of lf hostsEndMarker old "hostsEndMarker @ after"]
    by (simp add: Index_None_iff [symmetric] Index_prefix)
  moreover have "drop (Suc (length old) + length hostsEndMarker) (old @ lf # hostsEndMarker @ after) = after"
    by simp
  ultimately have "stripManagedHostsBlock (before @ lf # hostsBeginMarker @ lf # old @ lf # hostsEndMarker @ after)
      = before @ lf # dropWhile (\<lambda>c. c = lf \<or> c = cr) after"
    by (simp only: strip_terminated [OF assms(1)])
  also have "\<dots> = stripManagedHostsBlock (before @ lf # dropWhile (\<lambda>c. c = lf \<or> c = cr) after)"
    using assms(1,3) Index_append_avoid [of lf hostsBeginMarker before]
    by (intro strip_unmarked [symmetric]) (simp add: Index_None_iff [symmetric])
  finally show ?thesis by (simp only: mergeHosts_def hosts_base_def)
qed

text \<open>
  C35: Content behind a begin marker without an end marker is lost: the merge gives the same file
  as if everything from the marker on had not been there.
\<close>

theorem mergeHosts_unterminated_truncates:
  assumes "\<not> sublist hostsBeginMarker before" "\<not> sublist hostsEndMarker rest"
  shows "mergeHosts (before @ lf # hostsBeginMarker @ lf # rest) eps = mergeHosts before eps"
proof -
  have "TrimRight (stripManagedHostsBlock (before @ lf # hostsBeginMarker @ lf # rest)) [lf] =
      TrimRight (stripManagedHostsBlock before) [lf]"
    using assms by (simp add: strip_unterminated strip_unmarked Index_None_iff)
  then show ?thesis by (simp only: mergeHosts_def hosts_base_def)
qed

section \<open>Atomic replacement\<close>

text \<open>\<open>os.CreateTemp\<close> opens with \<open>O_EXCL\<close>: the name it settles on was free.\<close>

definition fresh_temp :: "outcomes \<Rightarrow> string \<Rightarrow> fs \<Rightarrow> bool" where
  "fresh_temp out path fs \<longleftrightarrow>
     (case temp_name out of None \<Rightarrow> True | Some rand \<Rightarrow> fs (temp_path (Dir path) rand) = None)"

definition new_file :: "string \<Rightarrow> nat \<Rightarrow> hosts_file" where
  "new_file content perm = \<lparr>data = content, mode = perm, synced = True\<rparr>"

lemma temp_not_hosts: "temp_path (Dir hostsPath) rand \<noteq> hostsPath"
  by (simp add: temp_path_def Dir_def hostsPath_def)

lemma write_trace:
  assumes "writeFileAtomic out path content perm fs = (trace, r)"
    "\<And>rand. temp_path (Dir path) rand \<noteq> path" "s \<in> set trace"
  shows "s path = fs path \<or> s path = Some (new_file content perm)"
  using assms(1,3) assms(2) [THEN not_sym]
  by (auto simp: writeFileAtomic_def Let_def Remove_def Rename_def new_file_def
      split: option.splits if_splits)

lemma write_result:
  assumes "writeFileAtomic out path content perm fs = (trace, r)" "fresh_temp out path fs"
    "\<And>rand. temp_path (Dir path) rand \<noteq> path"
  shows "trace \<noteq> [] \<and>
    (case r of
       Inr u \<Rightarrow> last trace = fs(path \<mapsto> new_file content perm)
     | Inl e \<Rightarrow> last trace path = fs path \<and> (remove_ok out \<longrightarrow> last trace = fs))"
  using assms(1,2) assms(3) [THEN not_sym]
  by (auto simp: writeFileAtomic_def Let_def Remove_def Rename_def new_file_def fresh_temp_def
      fun_eq_iff split: option.splits if_splits)

definition old_content :: "fs \<Rightarrow> string" where
  "old_content fs = (case fs hostsPath of None \<Rightarrow> [] | Some f \<Rightarrow> data f)"

text \<open>
  C4: The hosts file is replaced atomically: in every state that \<open>writeHosts\<close> goes through,
  whichever system calls fail, the path holds either the old file or the complete merged file
  with mode 0644, already synced to disk.
\<close>

theorem writeHosts_atomic:
  assumes "writeHosts read_ok out hostsPath eps fs = (trace, r)" "s \<in> set trace"
  shows "s hostsPath = fs hostsPath
    \<or> (\<exists>content. mergeHosts (old_content fs) eps = Inr content
         \<and> s hostsPath = Some (new_file content 420))"
proof (cases "read_ok \<and> (\<exists>content. mergeHosts (old_content fs) eps = Inr content)")
  case True
  then obtain content where m: "mergeHosts (old_content fs) eps = Inr content" and "read_ok" by blast
  with assms(1) obtain r' where w: "writeFileAtomic out hostsPath content 420 fs = (trace, r')"
    by (auto simp: writeHosts_def old_content_def split: prod.splits)
  show ?thesis using write_trace [OF w temp_not_hosts assms(2)] m by auto
next
  case False
  with assms show ?thesis by (auto simp: writeHosts_def old_content_def split: sum.splits if_splits)
qed

lemma writeHosts_final:
  assumes "writeHosts read_ok out hostsPath eps fs = (trace, r)" "fresh_temp out hostsPath fs"
  shows "case r of
      Inr u \<Rightarrow> (\<exists>content. mergeHosts (old_content fs) eps = Inr content
                \<and> last trace = fs(hostsPath \<mapsto> new_file content 420))
    | Inl e \<Rightarrow> last trace hostsPath = fs hostsPath \<and> (remove_ok out \<longrightarrow> last trace = fs)"
proof (cases "read_ok \<and> (\<exists>content. mergeHosts (old_content fs) eps = Inr content)")
  case True
  then obtain content where m: "mergeHosts (old_content fs) eps = Inr content" and "read_ok" by blast
  with assms(1) obtain r' where w: "writeFileAtomic out hostsPath content 420 fs = (trace, r')"
    and r: "r = map_err WriteHosts r'"
    by (auto simp: writeHosts_def old_content_def split: prod.splits)
  show ?thesis using write_result [OF w assms(2) temp_not_hosts] m r by (cases r') auto
next
  case False
  with assms show ?thesis by (auto simp: writeHosts_def old_content_def split: sum.splits if_splits)
qed

text \<open>
  C24: The result of \<open>writeHosts\<close> is truthful: on success the final file system differs from the
  first only in the hosts file, which holds the merged content; on failure the hosts file is the
  old one and, if the temporary file could be removed, nothing has changed at all.
\<close>

theorem writeHosts_result:
  assumes "writeHosts read_ok out hostsPath eps fs = (trace, r)" "fresh_temp out hostsPath fs"
  shows "case r of
      Inr u \<Rightarrow> (\<exists>content. mergeHosts (old_content fs) eps = Inr content
                \<and> last trace = fs(hostsPath \<mapsto> new_file content 420))
    | Inl e \<Rightarrow> last trace hostsPath = fs hostsPath \<and> (remove_ok out \<longrightarrow> last trace = fs)"
  by (rule writeHosts_final [OF assms])

section \<open>Examples\<close>

lemma sample_endpoints_ok: "list_all endpoint_ok sample_endpoints"
proof -
  have "validate_all sample_endpoints = Inr ()" by code_simp
  then show ?thesis by (simp only: validate_all_iff)
qed

definition sample_hosts :: string where
  "sample_hosts = ''10.0.0.1 gateway''"

lemma sample_hosts_unmarked:
  "\<not> sublist hostsBeginMarker sample_hosts" "\<not> sublist hostsEndMarker sample_hosts"
  by (simp_all only: Index_None_iff [symmetric])
    (simp_all add: hostsBeginMarker_def hostsEndMarker_def sample_hosts_def)

theorem mergeHosts_lines_example:
  "Split (hosts_base sample_hosts @ [lf, lf] @ hosts_block sample_endpoints) lf =
    Split (hosts_base sample_hosts) lf @ [[]] @ [hostsBeginMarker]
      @ map (\<lambda>i. host_line i (sample_endpoints ! i)) [0..<length sample_endpoints] @ [hostsEndMarker, []]"
  using mergeHosts_lines [OF mergeHosts_ok [OF sample_endpoints_ok]] by blast

theorem mergeHosts_again_example:
  "\<exists>out. merge_all sample_hosts [sample_endpoints, []] = Inr out \<and> mergeHosts sample_hosts [] = Inr out"
proof -
  obtain out where out: "merge_all sample_hosts ([sample_endpoints] @ [[]]) = Inr out"
    by (simp add: mergeHosts_ok [OF sample_endpoints_ok] mergeHosts_ok [of "[]"])
  moreover have "\<not> sublist hostsBeginMarker (stripManagedHostsBlock sample_hosts)"
    unfolding strip_unmarked [OF sample_hosts_unmarked(1)] by (rule sample_hosts_unmarked(1))
  ultimately show ?thesis using mergeHosts_again [OF out] by simp
qed

theorem mergeHosts_drops_old_block_example:
  "mergeHosts (sample_hosts @ lf # hostsBeginMarker @ lf # sample_hosts @ lf # hostsEndMarker @ []) [] =
    mergeHosts (sample_hosts @ lf # dropWhile (\<lambda>c. c = lf \<or> c = cr) []) []"
  by (rule mergeHosts_drops_old_block [OF sample_hosts_unmarked]) simp

theorem mergeHosts_unterminated_truncates_example:
  "mergeHosts (sample_hosts @ lf # hostsBeginMarker @ lf # sample_hosts) sample_endpoints =
    mergeHosts sample_hosts sample_endpoints"
  by (rule mergeHosts_unterminated_truncates [OF sample_hosts_unmarked])

text \<open>A run that fails to sync, and one without failures.\<close>

definition sample_outcomes :: "bool \<Rightarrow> outcomes" where
  "sample_outcomes ok =
     \<lparr>temp_name = Some ''42'', write_fails = None, chmod_ok = True, sync_ok = ok, close_ok = True,
      rename_ok = True, remove_ok = True, dir_open_ok = True, dir_sync_ok = False\<rparr>"

lemma sample_run: "\<exists>trace. writeHosts True (sample_outcomes ok) hostsPath sample_endpoints Map.empty =
    (trace, if ok then Inr () else Inl (WriteHosts SyncFailed)) \<and> length trace = (if ok then 7 else 5)"
  by (simp add: writeHosts_def mergeHosts_ok sample_endpoints_ok writeFileAtomic_def
      sample_outcomes_def Let_def)

theorem writeHosts_atomic_example:
  "list_all (\<lambda>s. s hostsPath = None
     \<or> (\<exists>content. mergeHosts [] sample_endpoints = Inr content \<and> s hostsPath = Some (new_file content 420)))
   (fst (writeHosts True (sample_outcomes False) hostsPath sample_endpoints Map.empty))"
  using writeHosts_atomic [of True "sample_outcomes False" sample_endpoints Map.empty, OF surjective_pairing]
  by (simp add: old_content_def list_all_iff)

theorem writeHosts_result_example:
  "\<exists>content. mergeHosts [] sample_endpoints = Inr content
     \<and> last (fst (writeHosts True (sample_outcomes True) hostsPath sample_endpoints Map.empty)) =
        [hostsPath \<mapsto> new_file content 420]"
proof -
  obtain trace where "writeHosts True (sample_outcomes True) hostsPath sample_endpoints Map.empty = (trace, Inr ())"
    using sample_run [of True] by auto
  with writeHosts_result [OF this] show ?thesis by (simp add: fresh_temp_def old_content_def split: option.splits)
qed

end
