(* ===== verification/Argo_Settings.thy ===== *)
theory Argo_Settings
  imports Go_Text
begin

text \<open>
  \<open>main.go\<close>, the settings that the package variables read from the environment when the program
  starts. \<open>time.ParseDuration\<close>, which computes in floating point, is the parameter of \<open>envDuration\<close>;
  durations are nanoseconds.
\<close>

section \<open>Settings\<close>

text \<open>The environment; an unset variable reads as empty, as with \<open>os.Getenv\<close>.\<close>

type_synonym environ = "string \<Rightarrow> string"

definition envInt :: "environ \<Rightarrow> string \<Rightarrow> int \<Rightarrow> int" where
  "envInt env nm fallback =
     (if env nm = [] then fallback
      else (case Atoi (env nm) of None \<Rightarrow> fallback | Some parsed \<Rightarrow> if parsed \<le> 0 then fallback else parsed))"

definition envBool :: "environ \<Rightarrow> string \<Rightarrow> bool \<Rightarrow> bool" where
  "envBool env nm fallback =
     (if env nm = [] then fallback
      else (case ParseBool (env nm) of None \<Rightarrow> fallback | Some parsed \<Rightarrow> parsed))"

definition envDuration :: "(string \<Rightarrow> int option) \<Rightarrow> environ \<Rightarrow> string \<Rightarrow> int \<Rightarrow> int" where
  "envDuration ParseDuration env nm fallback =
     (if env nm = [] then fallback
      else (case ParseDuration (env nm) of
              None \<Rightarrow> fallback
            | Some parsed \<Rightarrow> if parsed < 0 then fallback else parsed))"

definition envString :: "environ \<Rightarrow> string \<Rightarrow> string \<Rightarrow> string" where
  "envString env nm fallback = (if env nm = [] then fallback else env nm)"

record settings =
  configuredMaxConcurrentConnections :: int
  logBridgeConnections :: bool
  configuredBridgeIdleTimeout :: int
  configuredHostHTTPBindAddr :: string

definition defaultMaxConcurrentConnections :: int where
  "defaultMaxConcurrentConnections = 1024"

text \<open>Five minutes in nanoseconds.\<close>

definition defaultBridgeIdleTimeout :: int where
  "defaultBridgeIdleTimeout = 300000000000"

definition load_settings :: "(string \<Rightarrow> int option) \<Rightarrow> environ \<Rightarrow> settings" where
  "load_settings ParseDuration env =
     \<lparr>configuredMaxConcurrentConnections =
        envInt env ''ARGONAUT_MAX_CONNECTIONS'' defaultMaxConcurrentConnections,
      logBridgeConnections = envBool env ''ARGONAUT_LOG_CONNECTIONS'' True,
      configuredBridgeIdleTimeout =
        envDuration ParseDuration env ''ARGONAUT_IDLE_TIMEOUT'' defaultBridgeIdleTimeout,
      configuredHostHTTPBindAddr = envString env ''ARGONAUT_HTTP_BIND_ADDR'' ''0.0.0.0''\<rparr>"

definition configuredConnectionLimit :: "settings \<Rightarrow> int" where
  "configuredConnectionLimit cfg = configuredMaxConcurrentConnections cfg"

section \<open>Properties\<close>

text \<open>
  C36: Whatever the environment holds, the settings are usable: the connection limit is positive,
  the idle timeout is not negative (zero switches it off) and the bind address is not empty.
\<close>

theorem settings_usable:
  "0 < configuredMaxConcurrentConnections (load_settings ParseDuration env)
    \<and> 0 \<le> configuredBridgeIdleTimeout (load_settings ParseDuration env)
    \<and> configuredHostHTTPBindAddr (load_settings ParseDuration env) \<noteq> []"
  by (auto simp: load_settings_def envInt_def envDuration_def envString_def
      defaultMaxConcurrentConnections_def defaultBridgeIdleTimeout_def split: option.split)

end
