(* ===== verification/Argo_Bridge.thy ===== *)
theory Argo_Bridge
  imports Argo_Prelude
begin

text \<open>
  \<open>main.go\<close>, the accept loops: the connection limiter (a buffered channel used as a semaphore),
  the check of the VSOCK peer and the loop that \<open>hostInboundBridge\<close>, \<open>hostOutboundBridge\<close>,
  \<open>inboundBridge\<close> and \<open>outboundProxy\<close> share, as a step relation: the loop accepts a connection or
  an error, and the goroutine of any connection being served may end at any time. The limiter
  enters through the locale \<open>slots\<close>.
\<close>

section \<open>The connection limiter\<close>

text \<open>The channel: its capacity and the number of tokens in it.\<close>

record connectionLimiter =
  sem_cap :: nat
  sem_len :: nat

definition newConnectionLimiter :: "nat \<Rightarrow> connectionLimiter" where
  "newConnectionLimiter n = \<lparr>sem_cap = n, sem_len = 0\<rparr>"

text \<open>A send in a \<open>select\<close> with a \<open>default\<close> case.\<close>

definition tryAcquire :: "connectionLimiter \<Rightarrow> bool \<times> connectionLimiter" where
  "tryAcquire l =
     (if sem_len l < sem_cap l then (True, l\<lparr>sem_len := sem_len l + 1\<rparr>) else (False, l))"

text \<open>A receive; \<open>None\<close> when it would block because the channel is empty.\<close>

definition release :: "connectionLimiter \<Rightarrow> connectionLimiter option" where
  "release l = (if sem_len l = 0 then None else Some (l\<lparr>sem_len := sem_len l - 1\<rparr>))"

text \<open>
  What a client of the limiter relies on: \<open>held\<close> slots out of \<open>size\<close>, a slot is granted exactly if
  one is left, a held slot can be given back without waiting, and the size never changes.
\<close>

locale slots =
  fixes new :: "nat \<Rightarrow> 'l"
    and acquire :: "'l \<Rightarrow> bool \<times> 'l"
    and give_back :: "'l \<Rightarrow> 'l option"
    and held :: "'l \<Rightarrow> nat"
    and slot_count :: "'l \<Rightarrow> nat"
  assumes new_slots: "held (new n) = 0" "slot_count (new n) = n"
    and acquire_slot: "acquire l = (ok, l') \<Longrightarrow>
      ok = (held l < slot_count l) \<and> held l' = held l + (if ok then 1 else 0) \<and> slot_count l' = slot_count l"
    and give_back_slot: "0 < held l \<Longrightarrow>
      \<exists>l'. give_back l = Some l' \<and> held l' = held l - 1 \<and> slot_count l' = slot_count l"
begin

text \<open>A limiter whose held slots are the members of a list of holders.\<close>

lemma give_back_holder:
  "held l = length hs \<Longrightarrow> h \<in> set hs \<Longrightarrow>
   \<exists>l'. give_back l = Some l' \<and> held l' = length (remove1 h hs) \<and> slot_count l' = slot_count l"
proof -
  assume h: "held l = length hs" "h \<in> set hs"
  from h(2) have "0 < length hs" by (rule length_pos_if_in_set)
  then obtain l' where "give_back l = Some l'" "held l' = length hs - 1" "slot_count l' = slot_count l"
    using give_back_slot [of l] unfolding h(1) by blast
  moreover have "length (remove1 h hs) = length hs - 1" using h(2) by (simp add: length_remove1)
  ultimately show ?thesis by simp
qed

end

interpretation limiter: slots newConnectionLimiter tryAcquire release sem_len sem_cap
  by unfold_locales (auto simp: newConnectionLimiter_def tryAcquire_def release_def split: if_splits)

section \<open>Peers\<close>

datatype peer = VsockPeer uint32 | OtherPeer

record conn =
  conn_no :: nat
  remote :: peer

definition vsockPeerCIDMatches :: "conn \<Rightarrow> uint32 \<Rightarrow> bool" where
  "vsockPeerCIDMatches c expectedCID \<longleftrightarrow>
     (case remote c of VsockPeer cid \<Rightarrow> cid = expectedCID | OtherPeer \<Rightarrow> False)"

section \<open>The accept loop\<close>

text \<open>
  The state of one bridge: its limiter, the connections its goroutines serve, those it closed
  without serving and those whose goroutine has ended.
\<close>

record bridge =
  limiter :: connectionLimiter
  serving :: "conn list"
  refused :: "conn list"
  served :: "conn list"

definition new_bridge :: "nat \<Rightarrow> bridge" where
  "new_bridge n = \<lparr>limiter = newConnectionLimiter n, serving = [], refused = [], served = []\<rparr>"

text \<open>The tail of every loop body: \<open>if !limiter.tryAcquire() { ... Close }\<close>, else a goroutine.\<close>

definition admit :: "conn \<Rightarrow> bridge \<Rightarrow> bridge" where
  "admit c b =
     (case tryAcquire (limiter b) of
        (False, l) \<Rightarrow> b\<lparr>limiter := l, refused := refused b @ [c]\<rparr>
      | (True, l) \<Rightarrow> b\<lparr>limiter := l, serving := serving b @ [c]\<rparr>)"

text \<open>One iteration of each loop; \<open>None\<close> is an error of \<open>Accept\<close>, after which the loop goes on.\<close>

definition hostInboundBridge :: "conn option \<Rightarrow> bridge \<Rightarrow> bridge" where
  "hostInboundBridge acc b = (case acc of None \<Rightarrow> b | Some tcp \<Rightarrow> admit tcp b)"

definition hostOutboundBridge :: "uint32 \<Rightarrow> conn option \<Rightarrow> bridge \<Rightarrow> bridge" where
  "hostOutboundBridge expectedCID acc b =
     (case acc of
        None \<Rightarrow> b
      | Some vc \<Rightarrow>
          if \<not> vsockPeerCIDMatches vc expectedCID then b\<lparr>refused := refused b @ [vc]\<rparr>
          else admit vc b)"

definition inboundBridge :: "uint32 \<Rightarrow> conn option \<Rightarrow> bridge \<Rightarrow> bridge" where
  "inboundBridge expectedCID acc b =
     (case acc of
        None \<Rightarrow> b
      | Some vc \<Rightarrow>
          if \<not> vsockPeerCIDMatches vc expectedCID then b\<lparr>refused := refused b @ [vc]\<rparr>
          else admit vc b)"

definition outboundProxy :: "conn option \<Rightarrow> bridge \<Rightarrow> bridge" where
  "outboundProxy acc b = (case acc of None \<Rightarrow> b | Some tcp \<Rightarrow> admit tcp b)"

datatype loop = HostInbound | HostOutbound uint32 | EnclaveInbound uint32 | EnclaveOutbound

fun loop_body :: "loop \<Rightarrow> conn option \<Rightarrow> bridge \<Rightarrow> bridge" where
  "loop_body HostInbound = hostInboundBridge"
| "loop_body (HostOutbound cid) = hostOutboundBridge cid"
| "loop_body (EnclaveInbound cid) = inboundBridge cid"
| "loop_body EnclaveOutbound = outboundProxy"

fun admissible :: "loop \<Rightarrow> conn \<Rightarrow> bool" where
  "admissible (HostOutbound cid) c = (remote c = VsockPeer cid)"
| "admissible (EnclaveInbound cid) c = (remote c = VsockPeer cid)"
| "admissible _ c = True"

text \<open>
  The end of a goroutine: the deferred \<open>release\<close>. \<open>None\<close> is a goroutine that would hang in it.
\<close>

definition finish :: "conn \<Rightarrow> bridge \<Rightarrow> bridge option" where
  "finish c b =
     (case release (limiter b) of
        None \<Rightarrow> None
      | Some l \<Rightarrow> Some (b\<lparr>limiter := l, serving := remove1 c (serving b), served := served b @ [c]\<rparr>))"

inductive bridge_step :: "loop \<Rightarrow> bridge \<Rightarrow> bridge \<Rightarrow> bool" for lp where
  accept: "bridge_step lp b (loop_body lp acc b)"
| finish: "c \<in> set (serving b) \<Longrightarrow> finish c b = Some b' \<Longrightarrow> bridge_step lp b b'"

inductive reachable :: "loop \<Rightarrow> nat \<Rightarrow> bridge \<Rightarrow> bool" for lp n where
  start: "reachable lp n (new_bridge n)"
| step: "reachable lp n b \<Longrightarrow> bridge_step lp b b' \<Longrightarrow> reachable lp n b'"

inductive_cases bridge_stepE: "bridge_step lp b b'"

section \<open>Invariants\<close>

definition bridge_inv :: "loop \<Rightarrow> nat \<Rightarrow> bridge \<Rightarrow> bool" where
  "bridge_inv lp n b \<longleftrightarrow>
     sem_cap (limiter b) = n \<and> sem_len (limiter b) = length (serving b) \<and> length (serving b) \<le> n
     \<and> list_all (admissible lp) (serving b) \<and> list_all (admissible lp) (served b)"

lemma loop_body_cases:
  "loop_body lp acc b =
    (case acc of
       None \<Rightarrow> b
     | Some c \<Rightarrow> if admissible lp c then admit c b else b\<lparr>refused := refused b @ [c]\<rparr>)"
  by (cases lp)
    (auto simp: hostInboundBridge_def hostOutboundBridge_def inboundBridge_def outboundProxy_def
      vsockPeerCIDMatches_def split: option.split peer.splits)

lemma admit_cases:
  assumes "sem_cap (limiter b) = n" "sem_len (limiter b) = length (serving b)"
  shows "if length (serving b) < n
    then serving (admit c b) = serving b @ [c] \<and> refused (admit c b) = refused b
    else serving (admit c b) = serving b \<and> refused (admit c b) = refused b @ [c]"
    "served (admit c b) = served b" "sem_cap (limiter (admit c b)) = n"
    "sem_len (limiter (admit c b)) = length (serving (admit c b))"
proof -
  obtain ok l where acq: "tryAcquire (limiter b) = (ok, l)" by force
  note facts = limiter.acquire_slot [OF acq]
  show "if length (serving b) < n
    then serving (admit c b) = serving b @ [c] \<and> refused (admit c b) = refused b
    else serving (admit c b) = serving b \<and> refused (admit c b) = refused b @ [c]"
    "served (admit c b) = served b" "sem_cap (limiter (admit c b)) = n"
    "sem_len (limiter (admit c b)) = length (serving (admit c b))"
    using facts acq assms by (cases ok; simp add: admit_def)+
qed

lemma accept_inv:
  assumes "bridge_inv lp n b"
  shows "bridge_inv lp n (loop_body lp acc b)"
proof (cases acc)
  case (Some c)
  show ?thesis
  proof (cases "admissible lp c")
    case True
    with assms Some admit_cases [of b n c] show ?thesis
      by (auto simp: bridge_inv_def loop_body_cases split: if_splits)
  qed (use assms Some in \<open>simp add: bridge_inv_def loop_body_cases\<close>)
qed (use assms in \<open>simp add: loop_body_cases\<close>)

lemma list_all_remove1: "list_all P xs \<Longrightarrow> list_all P (remove1 x xs)"
  by (induction xs) auto

lemma finish_inv:
  assumes "bridge_inv lp n b" "c \<in> set (serving b)"
  shows "\<exists>b'. finish c b = Some b' \<and> bridge_inv lp n b' \<and> served b' = served b @ [c]
    \<and> serving b' = remove1 c (serving b)"
proof -
  obtain l where l: "release (limiter b) = Some l" "sem_len l = length (remove1 c (serving b))"
      "sem_cap l = sem_cap (limiter b)"
    using limiter.give_back_holder [of "limiter b" "serving b" c] assms
    by (auto simp: bridge_inv_def)
  moreover have "length (remove1 c (serving b)) \<le> n" "admissible lp c"
    using assms by (auto simp: bridge_inv_def length_remove1 list_all_iff)
  ultimately show ?thesis using assms by (simp add: finish_def bridge_inv_def list_all_remove1)
qed

lemma reachable_inv: "reachable lp n b \<Longrightarrow> bridge_inv lp n b"
proof (induction rule: reachable.induct)
  case start
  show ?case by (simp add: bridge_inv_def new_bridge_def newConnectionLimiter_def)
next
  case (step b b')
  from step.hyps(2) consider acc where "b' = loop_body lp acc b"
    | c where "c \<in> set (serving b)" "finish c b = Some b'"
    by (auto elim: bridge_stepE)
  then show ?case
  proof cases
    case 1
    with step.IH accept_inv show ?thesis by simp
  next
    case (2 c)
    with finish_inv [OF step.IH 2(1)] show ?thesis by auto
  qed
qed

text \<open>All goroutines can end, one after the other, and leave every slot free.\<close>

lemma drain:
  "reachable lp n b \<Longrightarrow> \<exists>b'. (bridge_step lp)\<^sup>*\<^sup>* b b' \<and> serving b' = [] \<and> sem_len (limiter b') = 0
     \<and> refused b' = refused b"
proof (induction "length (serving b)" arbitrary: b)
  case 0
  with reachable_inv [OF 0(2)] show ?case by (auto simp: bridge_inv_def)
next
  case (Suc k)
  then obtain c cs where c: "serving b = c # cs" by (cases "serving b") auto
  then obtain b1 where b1: "finish c b = Some b1" "serving b1 = remove1 c (serving b)"
    using finish_inv [OF reachable_inv [OF Suc.prems], of c] by auto
  then have "bridge_step lp b b1" using c by (auto intro: bridge_step.finish)
  moreover have "k = length (serving b1)" using b1(2) c Suc.hyps(2) by simp
  moreover have "refused b1 = refused b" using b1(1) by (auto simp: finish_def split: option.splits)
  ultimately show ?case
    using Suc.hyps(1) [of b1] reachable.step [OF Suc.prems] by (metis converse_rtranclp_into_rtranclp)
qed

section \<open>Properties\<close>

text \<open>
  C17: In every state that a bridge can reach, it serves at most as many connections as the limit,
  every connection that is or was served passed the check of its loop (a VSOCK peer with the
  expected CID where the loop checks it), and no goroutine can hang when it gives its slot back.
\<close>

theorem bridge_safe:
  assumes "reachable lp n b"
  shows "length (serving b) \<le> n \<and> list_all (admissible lp) (serving b) \<and> list_all (admissible lp) (served b)
    \<and> list_all (\<lambda>c. finish c b \<noteq> None) (serving b)"
proof -
  note inv = reachable_inv [OF assms]
  have "list_all (\<lambda>c. finish c b \<noteq> None) (serving b)"
    using finish_inv [OF inv] by (auto simp: list_all_iff)
  with inv show ?thesis by (simp add: bridge_inv_def)
qed

text \<open>
  C30: A bridge refuses a connection exactly if its peer fails the check or all slots are taken;
  otherwise the connection is served, and nothing else changes.
\<close>

theorem bridge_accepts:
  assumes "reachable lp n b"
  shows "let ok = (admissible lp c \<and> length (serving b) < n); b' = loop_body lp (Some c) b
    in serving b' = (if ok then serving b @ [c] else serving b)
       \<and> refused b' = (if ok then refused b else refused b @ [c]) \<and> served b' = served b"
  using reachable_inv [OF assms] admit_cases [of b n c]
  by (auto simp: bridge_inv_def loop_body_cases Let_def)

text \<open>
  C31: No slot is lost: from every reachable state the bridge can reach one in which nothing is
  being served, all slots are free, and the next admissible connection is served.
\<close>

theorem bridge_recovers:
  assumes "reachable lp n b" "0 < n" "admissible lp c"
  shows "\<exists>b'. (bridge_step lp)\<^sup>*\<^sup>* b b' \<and> serving b' = [] \<and> serving (loop_body lp (Some c) b') = [c]"
proof -
  obtain b' where b': "(bridge_step lp)\<^sup>*\<^sup>* b b'" "serving b' = []" using drain [OF assms(1)] by blast
  from b'(1) have "reachable lp n b'"
    by (induction rule: rtranclp_induct) (auto intro: assms(1) reachable.step)
  with reachable_inv [OF this] admit_cases [of b' n c] b' assms(2,3) show ?thesis
    by (intro exI [of _ b']) (auto simp: bridge_inv_def loop_body_cases split: if_splits)
qed

section \<open>Examples\<close>

text \<open>An enclave bridge with one slot: a stranger is refused, the parent is served.\<close>

definition stranger :: conn where
  "stranger = \<lparr>conn_no = 0, remote = VsockPeer 16\<rparr>"

definition parent :: conn where
  "parent = \<lparr>conn_no = 1, remote = VsockPeer 3\<rparr>"

definition sample_bridge :: bridge where
  "sample_bridge = loop_body (EnclaveInbound 3) (Some parent)
     (loop_body (EnclaveInbound 3) (Some stranger) (new_bridge 1))"

lemma sample_bridge_reachable: "reachable (EnclaveInbound 3) 1 sample_bridge"
  unfolding sample_bridge_def by (intro reachable.step [OF _ bridge_step.accept] reachable.start)

lemma sample_bridge_state:
  "serving sample_bridge = [parent]" "refused sample_bridge = [stranger]" "served sample_bridge = []"
  by (simp_all add: sample_bridge_def inboundBridge_def vsockPeerCIDMatches_def stranger_def parent_def
      admit_def tryAcquire_def new_bridge_def newConnectionLimiter_def)

theorem bridge_safe_example: "length (serving sample_bridge) \<le> 1 \<and> finish parent sample_bridge \<noteq> None"
  using bridge_safe [OF sample_bridge_reachable] by (simp add: sample_bridge_state)

theorem bridge_accepts_example:
  "refused (loop_body (EnclaveInbound 3) (Some parent) sample_bridge) = [stranger, parent]"
  using bridge_accepts [OF sample_bridge_reachable, of parent] by (simp add: sample_bridge_state Let_def)

theorem bridge_recovers_example:
  "\<exists>b'. (bridge_step (EnclaveInbound 3))\<^sup>*\<^sup>* sample_bridge b' \<and> serving b' = []
     \<and> serving (loop_body (EnclaveInbound 3) (Some parent) b') = [parent]"
  by (rule bridge_recovers [OF sample_bridge_reachable]) (simp_all add: parent_def)

end
