(* ===== verification/Argo_Conn.thy ===== *)
theory Argo_Conn
  imports Argo_Prelude
begin

text \<open>
  \<open>main.go\<close>, connections: a \<open>net.Conn\<close> with its deadlines and its half-close, the wrapper
  \<open>idleTimeoutConn\<close> with the methods it overrides and those it inherits by embedding, and \<open>closeWrite\<close>
  with its dynamic test for the method. The operations that wait enter the lemmas through the locale
  \<open>timed_io\<close>, which reads and writes both interpret. Instants and durations are nanoseconds.
\<close>

section \<open>Connections\<close>

text \<open>
  A connection of the \<open>net\<close> or the \<open>vsock\<close> package: whether its type has the method \<open>CloseWrite\<close>,
  whether a shutdown of its write side would succeed and has been done, and its deadlines.
\<close>

record raw_conn =
  has_CloseWrite :: bool
  shutdown_ok :: bool
  write_shut :: bool
  read_deadline :: "int option"
  write_deadline :: "int option"

definition fresh_conn :: "bool \<Rightarrow> bool \<Rightarrow> raw_conn" where
  "fresh_conn has ok =
     \<lparr>has_CloseWrite = has, shutdown_ok = ok, write_shut = False, read_deadline = None, write_deadline = None\<rparr>"

datatype net_conn = Raw raw_conn | idleTimeoutConn net_conn int

definition withIdleTimeout :: "int \<Rightarrow> net_conn \<Rightarrow> net_conn" where
  "withIdleTimeout configured c = (if configured \<le> 0 then c else idleTimeoutConn c configured)"

fun raw_of :: "net_conn \<Rightarrow> raw_conn" where
  "raw_of (Raw r) = r"
| "raw_of (idleTimeoutConn c t) = raw_of c"

lemma raw_of_withIdleTimeout [simp]: "raw_of (withIdleTimeout configured c) = raw_of c"
  by (simp add: withIdleTimeout_def)

section \<open>Half-close\<close>

text \<open>The type test \<open>c.(halfCloser)\<close>: the wrapper always has the method.\<close>

fun halfCloser :: "net_conn \<Rightarrow> bool" where
  "halfCloser (Raw r) = has_CloseWrite r"
| "halfCloser (idleTimeoutConn c t) = True"

text \<open>Whether it returned nil, and the connection afterwards.\<close>

fun CloseWrite :: "net_conn \<Rightarrow> bool \<times> net_conn" where
  "CloseWrite (Raw r) = (shutdown_ok r, Raw (if shutdown_ok r then r\<lparr>write_shut := True\<rparr> else r))"
| "CloseWrite (idleTimeoutConn c t) =
     (if halfCloser c then (case CloseWrite c of (ok, c') \<Rightarrow> (ok, idleTimeoutConn c' t))
      else (True, idleTimeoutConn c t))"

text \<open>The error of \<open>CloseWrite\<close> is dropped.\<close>

definition closeWrite :: "net_conn \<Rightarrow> net_conn" where
  "closeWrite c = (if halfCloser c then snd (CloseWrite c) else c)"

lemma raw_of_closeWrite:
  "raw_of (closeWrite c) =
     (raw_of c)\<lparr>write_shut := write_shut (raw_of c) \<or> has_CloseWrite (raw_of c) \<and> shutdown_ok (raw_of c)\<rparr>"
proof -
  have "raw_of (snd (CloseWrite c)) = (raw_of c)\<lparr>write_shut :=
      write_shut (raw_of c) \<or> has_CloseWrite (raw_of c) \<and> shutdown_ok (raw_of c)\<rparr>" if "halfCloser c"
    using that
  proof (induction c)
    case (idleTimeoutConn c t)
    then show ?case by (cases c) (auto split: prod.split)
  qed auto
  moreover have "\<not> has_CloseWrite (raw_of c)" if "\<not> halfCloser c" using that by (cases c) auto
  ultimately show ?thesis by (auto simp: closeWrite_def)
qed

section \<open>Waiting\<close>

text \<open>
  An operation that starts at \<open>now\<close> and could go through at \<open>arrival\<close>, if ever, under a deadline, if
  one is set. An operation at or after its deadline fails, even if it could go through.
\<close>

datatype timed = Ready int | TimedOut int | Never

definition conn_wait :: "int option \<Rightarrow> int \<Rightarrow> int option \<Rightarrow> timed" where
  "conn_wait deadline now arrival =
     (case (arrival, deadline) of
        (Some t, None) \<Rightarrow> Ready (max now t)
      | (Some t, Some d) \<Rightarrow> if max now t < d then Ready (max now t) else TimedOut (max now d)
      | (None, Some d) \<Rightarrow> TimedOut (max now d)
      | (None, None) \<Rightarrow> Never)"

text \<open>The deadlines of the embedded connection; the wrapper inherits both setters.\<close>

fun SetReadDeadline :: "int \<Rightarrow> net_conn \<Rightarrow> net_conn" where
  "SetReadDeadline d (Raw r) = Raw (r\<lparr>read_deadline := Some d\<rparr>)"
| "SetReadDeadline d (idleTimeoutConn c t) = idleTimeoutConn (SetReadDeadline d c) t"

fun SetWriteDeadline :: "int \<Rightarrow> net_conn \<Rightarrow> net_conn" where
  "SetWriteDeadline d (Raw r) = Raw (r\<lparr>write_deadline := Some d\<rparr>)"
| "SetWriteDeadline d (idleTimeoutConn c t) = idleTimeoutConn (SetWriteDeadline d c) t"

fun layers :: "net_conn \<Rightarrow> nat" where
  "layers (Raw r) = 0"
| "layers (idleTimeoutConn c t) = Suc (layers c)"

lemma layers_Set [simp]:
  "layers (SetReadDeadline d c) = layers c" "layers (SetWriteDeadline d c) = layers c"
  by (induction c) simp_all

text \<open>The time a read (a write) takes; the wrapper sets a new deadline first.\<close>

function Read :: "int \<Rightarrow> int option \<Rightarrow> net_conn \<Rightarrow> timed \<times> net_conn" where
  "Read now arrival (Raw r) = (conn_wait (read_deadline r) now arrival, Raw r)"
| "Read now arrival (idleTimeoutConn c t) =
     (case Read now arrival (SetReadDeadline (now + t) c) of (res, c') \<Rightarrow> (res, idleTimeoutConn c' t))"
  by pat_completeness auto
termination by (relation "measure (\<lambda>(now, arrival, c). layers c)") simp_all

function Write :: "int \<Rightarrow> int option \<Rightarrow> net_conn \<Rightarrow> timed \<times> net_conn" where
  "Write now arrival (Raw r) = (conn_wait (write_deadline r) now arrival, Raw r)"
| "Write now arrival (idleTimeoutConn c t) =
     (case Write now arrival (SetWriteDeadline (now + t) c) of (res, c') \<Rightarrow> (res, idleTimeoutConn c' t))"
  by pat_completeness auto
termination by (relation "measure (\<lambda>(now, arrival, c). layers c)") simp_all

text \<open>Successive operations, each started when the one before it went through.\<close>

fun attempts :: "(int \<Rightarrow> int option \<Rightarrow> 'c \<Rightarrow> timed \<times> 'c) \<Rightarrow> int \<Rightarrow> int option list \<Rightarrow> 'c \<Rightarrow> timed list" where
  "attempts attempt now [] c = []"
| "attempts attempt now (a # as) c =
     (case attempt now a c of
        (Ready t, c') \<Rightarrow> Ready t # attempts attempt t as c'
      | (res, c') \<Rightarrow> [res])"

text \<open>The idle limit in force: that of the innermost wrapper, which sets its deadline last.\<close>

fun idle_limit :: "net_conn \<Rightarrow> int option" where
  "idle_limit (Raw r) = None"
| "idle_limit (idleTimeoutConn c t) = (case idle_limit c of None \<Rightarrow> Some t | Some s \<Rightarrow> Some s)"

text \<open>Instants that follow each other with gaps shorter than the limit.\<close>

fun spaced :: "int \<Rightarrow> int \<Rightarrow> int list \<Rightarrow> bool" where
  "spaced limit now [] = True"
| "spaced limit now (t # ts) \<longleftrightarrow> now \<le> t \<and> t < now + limit \<and> spaced limit t ts"

text \<open>
  What the users of a connection rely on: an operation waits under a deadline that counts from its
  own start, whatever happened before, and leaves the limit as it is.
\<close>

locale timed_io =
  fixes attempt :: "int \<Rightarrow> int option \<Rightarrow> 'c \<Rightarrow> timed \<times> 'c"
    and limit :: "'c \<Rightarrow> int option"
    and usable :: "'c \<Rightarrow> bool"
  assumes attempt_waits: "usable c \<Longrightarrow> attempt now arrival c = (res, c') \<Longrightarrow>
      res = conn_wait (map_option ((+) now) (limit c)) now arrival \<and> usable c' \<and> limit c' = limit c"
begin

lemma attempt_returns:
  assumes "usable c" "limit c = Some l" "attempt now arrival c = (res, c')"
  shows "res \<noteq> Never \<and> usable c' \<and> limit c' = Some l"
  using attempt_waits [OF assms(1,3)] assms(2) by (auto simp: conn_wait_def split: option.splits)

lemma attempt_in_time:
  assumes "usable c" "limit c = Some l" "now \<le> t" "t < now + l"
  shows "\<exists>c'. attempt now (Some t) c = (Ready t, c') \<and> usable c' \<and> limit c' = Some l"
proof -
  obtain res c' where a: "attempt now (Some t) c = (res, c')" by force
  with attempt_waits [OF assms(1) a] assms show ?thesis by (simp add: conn_wait_def max_def)
qed

lemma attempt_late:
  assumes "usable c" "limit c = Some l" "0 \<le> l" "\<And>t. arrival = Some t \<Longrightarrow> now + l \<le> t"
  shows "fst (attempt now arrival c) = TimedOut (now + l)"
proof -
  obtain res c' where a: "attempt now arrival c = (res, c')" by force
  have "res = conn_wait (Some (now + l)) now arrival"
    using attempt_waits [OF assms(1) a] assms(2) by (simp add: add.commute)
  then show ?thesis using assms(3,4) a by (cases arrival) (auto simp: conn_wait_def max_def)
qed

lemma attempts_idle:
  assumes "usable c" "limit c = Some l" "0 \<le> l" "spaced l now ts"
    "\<And>t. arrival = Some t \<Longrightarrow> last (now # ts) + l \<le> t"
  shows "attempts attempt now (map Some ts @ arrival # later) c = map Ready ts @ [TimedOut (last (now # ts) + l)]"
  using assms
proof (induction ts arbitrary: now c)
  case Nil
  then have "fst (attempt now arrival c) = TimedOut (now + l)" by (intro attempt_late) auto
  then show ?case by (cases "attempt now arrival c") simp
next
  case (Cons t ts)
  then obtain c' where c': "attempt now (Some t) c = (Ready t, c')" "usable c'" "limit c' = Some l"
    using attempt_in_time [of c l now t] by auto
  have "attempts attempt t (map Some ts @ arrival # later) c' = map Ready ts @ [TimedOut (last (t # ts) + l)]"
    using c' Cons.prems by (intro Cons.IH) auto
  with c' show ?case by simp
qed

end

text \<open>A connection whose deadline nobody else has set.\<close>

fun reads_usable :: "net_conn \<Rightarrow> bool" where
  "reads_usable (Raw r) \<longleftrightarrow> read_deadline r = None"
| "reads_usable (idleTimeoutConn c t) \<longleftrightarrow> True"

fun writes_usable :: "net_conn \<Rightarrow> bool" where
  "writes_usable (Raw r) \<longleftrightarrow> write_deadline r = None"
| "writes_usable (idleTimeoutConn c t) \<longleftrightarrow> True"

lemma idle_limit_Set [simp]:
  "idle_limit (SetReadDeadline d c) = idle_limit c" "idle_limit (SetWriteDeadline d c) = idle_limit c"
  by (induction c) simp_all

lemma Read_wrapped [simp]:
  "fst (Read now arrival (idleTimeoutConn c t)) = fst (Read now arrival (SetReadDeadline (now + t) c))"
  "snd (Read now arrival (idleTimeoutConn c t)) = idleTimeoutConn (snd (Read now arrival (SetReadDeadline (now + t) c))) t"
  by (simp_all split: prod.split)

lemma Write_wrapped [simp]:
  "fst (Write now arrival (idleTimeoutConn c t)) = fst (Write now arrival (SetWriteDeadline (now + t) c))"
  "snd (Write now arrival (idleTimeoutConn c t)) = idleTimeoutConn (snd (Write now arrival (SetWriteDeadline (now + t) c))) t"
  by (simp_all split: prod.split)

declare Read.simps(2) [simp del] Write.simps(2) [simp del]

lemma Read_limit [simp]: "idle_limit (snd (Read now arrival c)) = idle_limit c"
  by (induction now arrival c rule: Read.induct) simp_all

lemma Write_limit [simp]: "idle_limit (snd (Write now arrival c)) = idle_limit c"
  by (induction now arrival c rule: Write.induct) simp_all

lemma Read_after_Set [simp]:
  "fst (Read now arrival (SetReadDeadline d c)) =
     conn_wait (Some (case idle_limit c of None \<Rightarrow> d | Some l \<Rightarrow> now + l)) now arrival"
proof (induction "layers c" arbitrary: c d)
  case 0
  then show ?case by (cases c) simp_all
next
  case (Suc n)
  then show ?case by (cases c) (simp_all split: option.split)
qed

lemma Write_after_Set [simp]:
  "fst (Write now arrival (SetWriteDeadline d c)) =
     conn_wait (Some (case idle_limit c of None \<Rightarrow> d | Some l \<Rightarrow> now + l)) now arrival"
proof (induction "layers c" arbitrary: c d)
  case 0
  then show ?case by (cases c) simp_all
next
  case (Suc n)
  then show ?case by (cases c) (simp_all split: option.split)
qed

lemma Read_usable: "reads_usable c \<Longrightarrow> reads_usable (snd (Read now arrival c))"
  by (cases c) simp_all

lemma Write_usable: "writes_usable c \<Longrightarrow> writes_usable (snd (Write now arrival c))"
  by (cases c) simp_all

lemma Read_waits:
  "reads_usable c \<Longrightarrow> fst (Read now arrival c) = conn_wait (map_option ((+) now) (idle_limit c)) now arrival"
  by (cases c) (simp_all split: option.split)

lemma Write_waits:
  "writes_usable c \<Longrightarrow> fst (Write now arrival c) = conn_wait (map_option ((+) now) (idle_limit c)) now arrival"
  by (cases c) (simp_all split: option.split)

interpretation reading: timed_io Read idle_limit reads_usable
  by unfold_locales (metis Read_waits Read_limit Read_usable fst_conv snd_conv)

interpretation writing: timed_io Write idle_limit writes_usable
  by unfold_locales (metis Write_waits Write_limit Write_usable fst_conv snd_conv)

text \<open>A connection of a bridge: not used before, and under the configured limit.\<close>

lemma wrapped_conn:
  assumes "0 < configured"
  shows "idle_limit (withIdleTimeout configured (Raw r)) = Some configured"
    "reads_usable (withIdleTimeout configured (Raw r))" "writes_usable (withIdleTimeout configured (Raw r))"
  using assms by (simp_all add: withIdleTimeout_def)

section \<open>Properties\<close>

text \<open>
  C21: The idle timeout cuts a connection exactly when it has been idle. With a positive timeout, reads
  (or writes) that follow each other with gaps shorter than it all go through, whatever the length
  of the connection; the first one that has to wait that long, or for ever, fails when the time
  since the previous one is over, and nothing is read after it.
\<close>

theorem idle_timeout_cuts:
  assumes "0 < configured" "spaced configured now ts" "arrival = None \<or> last (now # ts) + configured \<le> the arrival"
  shows "attempts Read now (map Some ts @ arrival # later) (withIdleTimeout configured (Raw r)) =
      map Ready ts @ [TimedOut (last (now # ts) + configured)]
    \<and> attempts Write now (map Some ts @ arrival # later) (withIdleTimeout configured (Raw r)) =
      map Ready ts @ [TimedOut (last (now # ts) + configured)]"
  using assms wrapped_conn [OF assms(1), of r]
  by (intro conjI reading.attempts_idle writing.attempts_idle) auto

section \<open>Examples\<close>

text \<open>A limit of 5: two reads in time, then one that comes too late.\<close>

theorem idle_timeout_cuts_example:
  "attempts Read 0 [Some 4, Some 8, Some 13, Some 14] (withIdleTimeout 5 (Raw (fresh_conn True True))) =
    [Ready 4, Ready 8, TimedOut 13]"
  using idle_timeout_cuts [of 5 0 "[4, 8]" "Some 13" "[Some 14]" "fresh_conn True True"] by simp

end
