(* ===== verification/Argo_Copy.thy ===== *)
theory Argo_Copy
  imports Go_Text Argo_Conn
begin

text \<open>
  \<open>main.go\<close>, moving bytes: \<open>writeAll\<close>, \<open>copyBidirectionalResult\<close> with its two goroutines running
  \<open>io.Copy\<close> and the half-close of the connections they write to. What the network does is given by
  scripts: the results of the successive reads and writes of a connection. A script that ends
  stands for a call that does not return. The two goroutines interleave in any order.
\<close>

section \<open>writeAll\<close>

datatype io_err = EOFErr | ShortWrite | InvalidWrite | DeadlineExceeded | NetErr nat

type_synonym write_script = "(nat \<times> io_err option) list"

text \<open>
  \<open>writeAll\<close>: the bytes that reached the writer, and the result: \<open>None\<close> if a write does not
  return, else the error or nil. A writer reports at most the length it was given, by the contract
  of \<open>io.Writer\<close>.
\<close>

fun writeAll :: "'a list \<Rightarrow> write_script \<Rightarrow> 'a list \<times> io_err option option" where
  "writeAll [] ws = ([], Some None)"
| "writeAll (b # bs) [] = ([], None)"
| "writeAll (b # bs) ((n, e) # ws) =
     (case e of
        Some err \<Rightarrow> (take n (b # bs), Some (Some err))
      | None \<Rightarrow>
          if n = 0 then ([], Some (Some ShortWrite))
          else (case writeAll (drop n (b # bs)) ws of (sent, r) \<Rightarrow> (take n (b # bs) @ sent, r)))"

lemma writeAll_sent:
  "writeAll bs ws = (sent, r) \<Longrightarrow> \<exists>rest. bs = sent @ rest \<and> (r = Some None \<longrightarrow> rest = [])"
proof (induction bs ws arbitrary: sent r rule: writeAll.induct)
  case (3 b bs n e ws)
  show ?case
  proof (cases "e = None \<and> n \<noteq> 0")
    case True
    with 3 obtain sent' rest where "drop n (b # bs) = sent' @ rest" "sent = take n (b # bs) @ sent'"
        "r = Some None \<longrightarrow> rest = []"
      by (fastforce split: prod.splits)
    then show ?thesis by (metis append_assoc append_take_drop_id)
  next
    case False
    with "3.prems" show ?thesis
      by (intro exI [of _ "drop (length sent) (b # bs)"])
        (auto split: option.splits if_splits simp: append_take_drop_id min_def)
  qed
qed auto

lemma writeAll_progress:
  "list_all (\<lambda>w. 0 < fst w \<and> snd w = None) ws \<Longrightarrow> length bs \<le> length ws \<Longrightarrow>
   snd (writeAll bs ws) = Some None"
proof (induction bs ws rule: writeAll.induct)
  case (3 b bs n e ws)
  then have "e = None" "n \<noteq> 0" "length (drop n (b # bs)) \<le> length ws" by auto
  with 3 have "snd (writeAll (drop n (b # bs)) ws) = Some None" by simp
  with 3 show ?case by (auto split: prod.splits)
qed simp_all

section \<open>One direction of a copy\<close>

text \<open>A read returns bytes, an error, or both.\<close>

datatype read_result = Chunk "byte list" "io_err option"

text \<open>The connection written to, and how far its goroutine has come: \<open>closeWrite\<close> run, outcome sent.\<close>

record direction =
  dst_conn :: net_conn
  reads :: "read_result list"
  writes :: write_script
  delivered :: "byte list"
  outcome :: "io_err option option"
  dst_closed :: bool
  posted :: bool

definition new_direction :: "net_conn \<Rightarrow> read_result list \<Rightarrow> write_script \<Rightarrow> direction" where
  "new_direction c rs ws =
     \<lparr>dst_conn = c, reads = rs, writes = ws, delivered = [], outcome = None, dst_closed = False, posted = False\<rparr>"

text \<open>The end of an iteration of \<open>io.Copy\<close>: \<open>io.EOF\<close> ends it without an error.\<close>

definition read_end :: "io_err option \<Rightarrow> io_err option option" where
  "read_end er = (case er of None \<Rightarrow> None | Some e \<Rightarrow> if e = EOFErr then Some None else Some (Some e))"

text \<open>
  One iteration of the loop of \<open>io.Copy\<close>; \<open>None\<close> while the read or the write does not return. The
  number of bytes copied is the length of \<open>delivered\<close>.
\<close>

definition copy_iter :: "direction \<Rightarrow> direction option" where
  "copy_iter d =
     (case reads d of
        [] \<Rightarrow> None
      | Chunk bs er # rs \<Rightarrow>
          if bs = [] then Some (d\<lparr>reads := rs, outcome := read_end er\<rparr>)
          else
            (case writes d of
               [] \<Rightarrow> None
             | (n, e) # ws \<Rightarrow>
                 let nw = (if n > length bs then 0 else n);
                     ew = (if n > length bs \<and> e = None then Some InvalidWrite else e);
                     d' = d\<lparr>reads := rs, writes := ws, delivered := delivered d @ take nw bs\<rparr>
                 in Some (d'\<lparr>outcome :=
                      (if ew \<noteq> None then Some ew
                       else if nw \<noteq> length bs then Some (Some ShortWrite)
                       else read_end er)\<rparr>)))"

section \<open>Both directions\<close>

record copyOutcome =
  out_bytes :: nat
  out_err :: "io_err option"
  aToB :: bool

record copyResult =
  AToBBytes :: nat
  BToABytes :: nat
  AToBErr :: "io_err option"
  BToAErr :: "io_err option"

definition zero_result :: copyResult where
  "zero_result = \<lparr>AToBBytes = 0, BToABytes = 0, AToBErr = None, BToAErr = None\<rparr>"

definition Err :: "copyResult \<Rightarrow> io_err option" where
  "Err r = (if AToBErr r \<noteq> None then AToBErr r else BToAErr r)"

text \<open>The state of \<open>copyBidirectionalResult\<close>: its goroutines and the channel \<open>done\<close>.\<close>

record copying =
  ab :: direction
  ba :: direction
  done_chan :: "copyOutcome list"

definition start_copy :: "direction \<Rightarrow> direction \<Rightarrow> copying" where
  "start_copy d e = \<lparr>ab = d, ba = e, done_chan = []\<rparr>"

text \<open>A goroutine copies, then half-closes its destination, then reports; the channel has room.\<close>

inductive goroutine :: "bool \<Rightarrow> direction \<Rightarrow> copyOutcome list \<Rightarrow> direction \<Rightarrow> copyOutcome list \<Rightarrow> bool" where
  copy: "outcome d = None \<Longrightarrow> copy_iter d = Some d' \<Longrightarrow> goroutine forward d ch d' ch"
| close: "outcome d = Some e \<Longrightarrow> \<not> dst_closed d \<Longrightarrow> goroutine forward d ch (d\<lparr>dst_closed := True, dst_conn := closeWrite (dst_conn d)\<rparr>) ch"
| post: "outcome d = Some e \<Longrightarrow> dst_closed d \<Longrightarrow> \<not> posted d \<Longrightarrow>
    goroutine forward d ch (d\<lparr>posted := True\<rparr>)
      (ch @ [\<lparr>out_bytes = length (delivered d), out_err = e, aToB = forward\<rparr>])"

inductive copy_step :: "copying \<Rightarrow> copying \<Rightarrow> bool" where
  ab: "goroutine True (ab c) (done_chan c) d ch \<Longrightarrow> copy_step c (c\<lparr>ab := d, done_chan := ch\<rparr>)"
| ba: "goroutine False (ba c) (done_chan c) d ch \<Longrightarrow> copy_step c (c\<lparr>ba := d, done_chan := ch\<rparr>)"

inductive_cases goroutineE: "goroutine forward d ch d' ch'"
inductive_cases copy_stepE: "copy_step c c'"

text \<open>The loop over the two outcomes in the order they arrived.\<close>

definition take_outcome :: "copyResult \<Rightarrow> copyOutcome \<Rightarrow> copyResult" where
  "take_outcome r x =
     (if aToB x then r\<lparr>AToBBytes := out_bytes x, AToBErr := out_err x\<rparr>
      else r\<lparr>BToABytes := out_bytes x, BToAErr := out_err x\<rparr>)"

definition copyBidirectionalResult :: "copying \<Rightarrow> copyResult option" where
  "copyBidirectionalResult c =
     (case done_chan c of
        [first, second] \<Rightarrow> Some (foldl take_outcome zero_result [first, second])
      | _ \<Rightarrow> None)"

definition copyBidirectional :: "copying \<Rightarrow> io_err option option" where
  "copyBidirectional c = map_option Err (copyBidirectionalResult c)"

section \<open>What a direction computes on its own\<close>

text \<open>The bytes delivered and the result, from the scripts alone; \<open>None\<close> if it does not return.\<close>

fun copy_all :: "read_result list \<Rightarrow> write_script \<Rightarrow> byte list \<times> io_err option option" where
  "copy_all [] ws = ([], None)"
| "copy_all (Chunk bs er # rs) ws =
     (if bs = [] then (case read_end er of None \<Rightarrow> copy_all rs ws | Some r \<Rightarrow> ([], Some r))
      else
        (case ws of
           [] \<Rightarrow> ([], None)
         | (n, e) # ws' \<Rightarrow>
             if n > length bs then ([], Some (Some (case e of None \<Rightarrow> InvalidWrite | Some x \<Rightarrow> x)))
             else if e \<noteq> None then (take n bs, Some e)
             else if n < length bs then (take n bs, Some (Some ShortWrite))
             else (case read_end er of
                     Some r \<Rightarrow> (bs, Some r)
                   | None \<Rightarrow> (case copy_all rs ws' of (out, r) \<Rightarrow> (bs @ out, r)))))"

text \<open>What is still to come of a direction.\<close>

definition total :: "direction \<Rightarrow> byte list \<times> io_err option option" where
  "total d =
     (case outcome d of
        Some r \<Rightarrow> (delivered d, Some r)
      | None \<Rightarrow> (case copy_all (reads d) (writes d) of (out, r) \<Rightarrow> (delivered d @ out, r)))"

lemma copy_iter_total: "outcome d = None \<Longrightarrow> copy_iter d = Some d' \<Longrightarrow> total d' = total d"
  by (auto simp: copy_iter_def total_def Let_def split: list.splits read_result.splits if_splits
      option.splits prod.splits)

lemma copy_iter_flags:
  "copy_iter d = Some d' \<Longrightarrow> dst_closed d' = dst_closed d \<and> posted d' = posted d \<and> dst_conn d' = dst_conn d"
  by (auto simp: copy_iter_def Let_def split: list.splits read_result.splits if_splits)

lemma copy_iter_none: "outcome d = None \<Longrightarrow> copy_iter d = None \<Longrightarrow> snd (total d) = None"
  by (auto simp: copy_iter_def total_def Let_def split: list.splits read_result.splits if_splits prod.splits)

section \<open>Every interleaving\<close>

text \<open>The invariant of one goroutine, started on the scripts \<open>rs\<close> and \<open>ws\<close> and writing to \<open>c\<close>.\<close>

definition direction_inv ::
  "bool \<Rightarrow> net_conn \<Rightarrow> read_result list \<Rightarrow> write_script \<Rightarrow> direction \<Rightarrow> copyOutcome list \<Rightarrow> bool" where
  "direction_inv forward c rs ws d ch \<longleftrightarrow>
     dst_conn d = (if dst_closed d then closeWrite c else c) \<and> total d = copy_all rs ws \<and> (dst_closed d \<longrightarrow> outcome d \<noteq> None) \<and> (posted d \<longrightarrow> dst_closed d)
     \<and> filter (\<lambda>x. aToB x = forward) ch =
        (if posted d then [\<lparr>out_bytes = length (fst (copy_all rs ws)), out_err = the (snd (copy_all rs ws)),
           aToB = forward\<rparr>] else [])"

lemma goroutine_inv:
  assumes "goroutine forward d ch d' ch'" "direction_inv forward c rs ws d ch"
  shows "direction_inv forward c rs ws d' ch'"
proof -
  consider (copy) "outcome d = None" "copy_iter d = Some d'" "ch' = ch"
    | (close) e where "outcome d = Some e" "\<not> dst_closed d"
        "d' = d\<lparr>dst_closed := True, dst_conn := closeWrite (dst_conn d)\<rparr>" "ch' = ch"
    | (post) e where "outcome d = Some e" "dst_closed d" "\<not> posted d" "d' = d\<lparr>posted := True\<rparr>"
        "ch' = ch @ [\<lparr>out_bytes = length (delivered d), out_err = e, aToB = forward\<rparr>]"
    by (rule goroutineE [OF assms(1)]) auto
  then show ?thesis
  proof cases
    case copy
    with assms(2) copy_iter_total [OF copy(1,2)] copy_iter_flags [OF copy(2)] show ?thesis
      by (auto simp: direction_inv_def)
  next
    case (close e)
    with assms(2) show ?thesis by (simp add: direction_inv_def total_def)
  next
    case (post e)
    then have "copy_all rs ws = (delivered d, Some e)" "total d' = (delivered d, Some e)"
      using assms(2) by (simp_all add: direction_inv_def total_def)
    with assms(2) post show ?thesis by (simp add: direction_inv_def)
  qed
qed

lemma goroutine_other:
  "goroutine forward d ch d' ch' \<Longrightarrow> filter (\<lambda>x. aToB x = (\<not> forward)) ch' = filter (\<lambda>x. aToB x = (\<not> forward)) ch"
  by (auto elim: goroutineE)

definition copy_inv ::
  "net_conn \<Rightarrow> net_conn \<Rightarrow> read_result list \<Rightarrow> write_script \<Rightarrow> read_result list \<Rightarrow> write_script \<Rightarrow> copying \<Rightarrow> bool"
where
  "copy_inv a b rs ws rs' ws' c \<longleftrightarrow>
     direction_inv True b rs ws (ab c) (done_chan c) \<and> direction_inv False a rs' ws' (ba c) (done_chan c)"

lemma copy_step_inv: "copy_step c c' \<Longrightarrow> copy_inv a b rs ws rs' ws' c \<Longrightarrow> copy_inv a b rs ws rs' ws' c'"
proof (elim copy_stepE)
  fix d ch
  assume c': "c' = c\<lparr>ab := d, done_chan := ch\<rparr>" and g: "goroutine True (ab c) (done_chan c) d ch"
  assume "copy_inv a b rs ws rs' ws' c"
  with goroutine_inv [OF g] goroutine_other [OF g] show "copy_inv a b rs ws rs' ws' c'"
    by (simp add: c' copy_inv_def direction_inv_def)
next
  fix d ch
  assume c': "c' = c\<lparr>ba := d, done_chan := ch\<rparr>" and g: "goroutine False (ba c) (done_chan c) d ch"
  assume "copy_inv a b rs ws rs' ws' c"
  with goroutine_inv [OF g] goroutine_other [OF g] show "copy_inv a b rs ws rs' ws' c'"
    by (simp add: c' copy_inv_def direction_inv_def)
qed

text \<open>\<open>copyBidirectionalResult(a, b)\<close> on the scripts of both directions.\<close>

abbreviation start ::
  "net_conn \<Rightarrow> net_conn \<Rightarrow> read_result list \<Rightarrow> write_script \<Rightarrow> read_result list \<Rightarrow> write_script \<Rightarrow> copying"
where
  "start a b rs ws rs' ws' \<equiv> start_copy (new_direction b rs ws) (new_direction a rs' ws')"

lemma copy_reachable_inv:
  "copy_step\<^sup>*\<^sup>* (start a b rs ws rs' ws') c \<Longrightarrow> copy_inv a b rs ws rs' ws' c"
proof (induction rule: rtranclp_induct)
  case base
  show ?case
    by (simp add: copy_inv_def direction_inv_def start_copy_def new_direction_def total_def
        split: prod.split)
next
  case (step c c')
  then show ?case using copy_step_inv by blast
qed

text \<open>The result that the two directions determine.\<close>

definition copy_spec ::
  "byte list \<times> io_err option option \<Rightarrow> byte list \<times> io_err option option \<Rightarrow> copyResult" where
  "copy_spec x y =
     \<lparr>AToBBytes = length (fst x), BToABytes = length (fst y), AToBErr = the (snd x), BToAErr = the (snd y)\<rparr>"

lemma copy_result_eq:
  assumes "copy_inv a b rs ws rs' ws' c" "copyBidirectionalResult c = Some r"
  shows "r = copy_spec (copy_all rs ws) (copy_all rs' ws')"
proof -
  from assms(2) obtain x y where ch: "done_chan c = [x, y]" and r: "r = foldl take_outcome zero_result [x, y]"
    by (auto simp: copyBidirectionalResult_def split: list.splits)
  let ?t = "\<lparr>out_bytes = length (fst (copy_all rs ws)), out_err = the (snd (copy_all rs ws)), aToB = True\<rparr>"
  let ?f = "\<lparr>out_bytes = length (fst (copy_all rs' ws')), out_err = the (snd (copy_all rs' ws')), aToB = False\<rparr>"
  have "filter (\<lambda>z. aToB z = True) [x, y] \<in> {[], [?t]}" "filter (\<lambda>z. aToB z = False) [x, y] \<in> {[], [?f]}"
    using assms(1) ch by (auto simp: copy_inv_def direction_inv_def)
  then have "x = ?t \<and> y = ?f \<or> x = ?f \<and> y = ?t"
    by (cases "aToB x"; cases "aToB y") simp_all
  then show ?thesis by (auto simp: r take_outcome_def zero_result_def copy_spec_def)
qed

section \<open>Progress\<close>

definition work :: "direction \<Rightarrow> nat" where
  "work d = length (reads d) + (if outcome d = None then 1 else 0) + (if dst_closed d then 0 else 1)
     + (if posted d then 0 else 1)"

lemma goroutine_work: "goroutine forward d ch d' ch' \<Longrightarrow> work d' < work d"
proof (elim goroutineE)
  assume "outcome d = None" "copy_iter d = Some d'"
  then show "work d' < work d"
    by (auto simp: work_def copy_iter_def Let_def split: list.splits read_result.splits if_splits)
qed (auto simp: work_def)

lemma goroutine_enabled:
  assumes "\<not> posted d" "snd (total d) \<noteq> None"
  shows "\<exists>d' ch'. goroutine forward d ch d' ch'"
proof (cases "outcome d")
  case None
  with copy_iter_none [of d] assms(2) obtain d' where "copy_iter d = Some d'" by fastforce
  with None show ?thesis by (blast intro: goroutine.copy)
next
  case (Some e)
  with assms(1) show ?thesis by (cases "dst_closed d") (blast intro: goroutine.close goroutine.post)+
qed

lemma channel_full:
  assumes "copy_inv a b rs ws rs' ws' c" "posted (ab c)" "posted (ba c)"
  shows "copyBidirectionalResult c \<noteq> None"
proof -
  have "length (filter (\<lambda>x. aToB x = True) (done_chan c)) = 1"
    "length (filter (\<lambda>x. aToB x = False) (done_chan c)) = 1"
    using assms by (simp_all add: copy_inv_def direction_inv_def)
  then have "length (done_chan c) = 2"
    using sum_length_filter_compl [of aToB "done_chan c"] by simp
  then obtain x y where "done_chan c = [x, y]" by (auto simp: length_Suc_conv numeral_2_eq_2)
  then show ?thesis by (simp add: copyBidirectionalResult_def)
qed

lemma copy_terminates:
  "copy_inv a b rs ws rs' ws' c \<Longrightarrow> snd (copy_all rs ws) \<noteq> None \<Longrightarrow> snd (copy_all rs' ws') \<noteq> None \<Longrightarrow>
   \<exists>c'. copy_step\<^sup>*\<^sup>* c c' \<and> copyBidirectionalResult c' \<noteq> None"
proof (induction "work (ab c) + work (ba c)" arbitrary: c rule: less_induct)
  case less
  show ?case
  proof (cases "posted (ab c) \<and> posted (ba c)")
    case True
    with less.prems(1) channel_full show ?thesis by blast
  next
    case False
    obtain c' where c': "copy_step c c'" "work (ab c') + work (ba c') < work (ab c) + work (ba c)"
    proof (cases "posted (ab c)")
      case True
      with False less.prems have "\<exists>d ch. goroutine False (ba c) (done_chan c) d ch"
        by (intro goroutine_enabled) (auto simp: copy_inv_def direction_inv_def)
      then obtain d ch where g: "goroutine False (ba c) (done_chan c) d ch" by blast
      show ?thesis by (rule that [OF copy_step.ba [OF g]]) (simp add: goroutine_work [OF g])
    next
      case no: False
      with less.prems have "\<exists>d ch. goroutine True (ab c) (done_chan c) d ch"
        by (intro goroutine_enabled) (auto simp: copy_inv_def direction_inv_def)
      then obtain d ch where g: "goroutine True (ab c) (done_chan c) d ch" by blast
      show ?thesis by (rule that [OF copy_step.ab [OF g]]) (simp add: goroutine_work [OF g])
    qed
    with less.hyps [OF c'(2) copy_step_inv [OF c'(1) less.prems(1)] less.prems(2,3)]
    show ?thesis by (blast intro: converse_rtranclp_into_rtranclp)
  qed
qed

section \<open>Properties\<close>

text \<open>The bytes a script of reads delivers up to its first error.\<close>

fun source_bytes :: "read_result list \<Rightarrow> byte list" where
  "source_bytes [] = []"
| "source_bytes (Chunk bs er # rs) = bs @ (if read_end er = None then source_bytes rs else [])"

lemma copy_all_source:
  "copy_all rs ws = (out, r) \<Longrightarrow>
   \<exists>rest. source_bytes rs = out @ rest \<and> (r = Some None \<longrightarrow> rest = [])"
proof (induction rs ws arbitrary: out r rule: copy_all.induct)
  case (2 bs er rs ws)
  show ?case
  proof (cases "bs = []")
    case True
    with 2 show ?thesis by (auto split: option.splits)
  next
    case False
    show ?thesis
    proof (cases "\<exists>n ws'. ws = (n, None) # ws' \<and> n = length bs \<and> read_end er = None")
      case True
      then obtain ws' where ws: "ws = (length bs, None) # ws'" "read_end er = None" by auto
      obtain out' where out': "copy_all rs ws' = (out', r)" "out = bs @ out'"
        using "2.prems" ws False by (auto split: prod.splits)
      with "2.IH"(2) [OF False, of "(length bs, None)" ws' "length bs" None] ws show ?thesis by auto
    next
      case other: False
      have "\<exists>k. out = take k bs \<and> (r = Some None \<longrightarrow> k = length bs \<and> read_end er \<noteq> None)"
        using "2.prems" False other
        by (cases ws) (auto split: prod.splits if_splits option.splits intro: exI [of _ 0] exI [of _ "length bs"])
      then obtain k where "out = take k bs" "r = Some None \<longrightarrow> k = length bs \<and> read_end er \<noteq> None" by blast
      then show ?thesis
        by (intro exI [of _ "drop k bs @ (if read_end er = None then source_bytes rs else [])"]) auto
    qed
  qed
qed simp

lemma direction_delivers:
  assumes "direction_inv forward c rs ws d ch"
  shows "\<exists>rest. source_bytes rs = delivered d @ rest \<and> (outcome d = Some None \<longrightarrow> rest = [])"
proof -
  obtain out r where all: "copy_all rs ws = (out, r)" by force
  obtain rest where rest: "source_bytes rs = out @ rest" "r = Some None \<longrightarrow> rest = []"
    using copy_all_source [OF all] by blast
  have t: "total d = (out, r)" using assms all by (simp add: direction_inv_def)
  show ?thesis
  proof (cases "outcome d")
    case None
    with t obtain more where "out = delivered d @ more" by (auto simp: total_def split: prod.splits)
    with rest None show ?thesis by simp
  next
    case (Some e)
    with t rest show ?thesis by (simp add: total_def)
  qed
qed

text \<open>
  C32: \<open>writeAll\<close> never skips or repeats a byte: what reached the writer is a prefix of the data, and
  it is all of the data if \<open>writeAll\<close> returns nil; and it does return nil whenever every write makes
  progress without an error.
\<close>

theorem writeAll_correct:
  "(\<exists>rest. bs = fst (writeAll bs ws) @ rest \<and> (snd (writeAll bs ws) \<noteq> Some None \<or> rest = []))
    \<and> (list_ex (\<lambda>w. fst w = 0 \<or> snd w \<noteq> None) ws \<or> length ws < length bs \<or> snd (writeAll bs ws) = Some None)"
proof -
  obtain sent r where w: "writeAll bs ws = (sent, r)" by force
  have "snd (writeAll bs ws) = Some None"
    if "\<not> list_ex (\<lambda>w. fst w = 0 \<or> snd w \<noteq> None) ws" "\<not> length ws < length bs"
    using that by (intro writeAll_progress) (auto simp: list_ex_iff list_all_iff)
  with writeAll_sent [OF w] w show ?thesis by auto
qed

text \<open>
  C19: The result of a bidirectional copy does not depend on how the two goroutines interleave or
  which one reports first: it is determined by what each direction reads and writes.
\<close>

theorem copyBidirectional_deterministic:
  assumes "copy_step\<^sup>*\<^sup>* (start a b rs ws rs' ws') c" "copyBidirectionalResult c = Some r"
  shows "r = copy_spec (copy_all rs ws) (copy_all rs' ws')"
  by (rule copy_result_eq [OF copy_reachable_inv [OF assms(1)] assms(2)])

text \<open>
  C18: In every state of the copy each side has received a prefix of what the other side sent. The
  write side of a connection is as it was until its direction has ended, and is then shut exactly
  if the connection under the idle timeouts supports it; if the direction ended at end of file,
  everything that was sent has been delivered before.
\<close>

theorem copyBidirectional_half_close:
  assumes "copy_step\<^sup>*\<^sup>* (start (withIdleTimeout idle (Raw a)) (withIdleTimeout idle (Raw b)) rs ws rs' ws') c"
    "\<not> write_shut a" "\<not> write_shut b"
  shows "(\<exists>rest. source_bytes rs = delivered (ab c) @ rest \<and> (outcome (ab c) \<noteq> Some None \<or> rest = []))
    \<and> (\<exists>rest. source_bytes rs' = delivered (ba c) @ rest \<and> (outcome (ba c) \<noteq> Some None \<or> rest = []))
    \<and> (\<not> dst_closed (ab c) \<or> outcome (ab c) \<noteq> None) \<and> (\<not> dst_closed (ba c) \<or> outcome (ba c) \<noteq> None)
    \<and> write_shut (raw_of (dst_conn (ab c))) = (dst_closed (ab c) \<and> has_CloseWrite b \<and> shutdown_ok b)
    \<and> write_shut (raw_of (dst_conn (ba c))) = (dst_closed (ba c) \<and> has_CloseWrite a \<and> shutdown_ok a)"
proof -
  note inv = copy_reachable_inv [OF assms(1)]
  then have "direction_inv True (withIdleTimeout idle (Raw b)) rs ws (ab c) (done_chan c)"
    "direction_inv False (withIdleTimeout idle (Raw a)) rs' ws' (ba c) (done_chan c)"
    by (simp_all add: copy_inv_def)
  from direction_delivers [OF this(1)] direction_delivers [OF this(2)] this assms(2,3) show ?thesis
    by (auto simp: direction_inv_def raw_of_closeWrite)
qed

text \<open>
  C20: A copy whose two directions end on their own always returns: from every state it can reach,
  whatever ran so far, the goroutines can go on until both outcomes have been received.
\<close>

theorem copyBidirectional_returns:
  assumes "copy_step\<^sup>*\<^sup>* (start a b rs ws rs' ws') c" "snd (copy_all rs ws) \<noteq> None" "snd (copy_all rs' ws') \<noteq> None"
  shows "\<exists>c'. copy_step\<^sup>*\<^sup>* c c' \<and> copyBidirectionalResult c' \<noteq> None"
  by (rule copy_terminates [OF copy_reachable_inv [OF assms(1)] assms(2,3)])

section \<open>Examples\<close>

definition sample_conn :: net_conn where
  "sample_conn = withIdleTimeout 5 (Raw (fresh_conn True True))"

definition sample_reads :: "read_result list" where
  "sample_reads = [Chunk [1, 2] None, Chunk [3] (Some EOFErr)]"

definition sample_writes :: write_script where
  "sample_writes = [(2, None), (1, None)]"

lemma sample_copy: "copy_all sample_reads sample_writes = ([1, 2, 3], Some None)"
  by (simp add: sample_reads_def sample_writes_def read_end_def)

lemma sample_finished: "\<exists>c. copy_step\<^sup>*\<^sup>* (start sample_conn sample_conn sample_reads sample_writes [Chunk [] (Some EOFErr)] []) c
    \<and> copyBidirectionalResult c \<noteq> None"
  using copy_terminates [OF copy_reachable_inv [OF rtranclp.rtrancl_refl]] sample_copy
  by (simp add: read_end_def)

theorem copyBidirectional_deterministic_example:
  "\<exists>c. copyBidirectionalResult c =
    Some \<lparr>AToBBytes = 3, BToABytes = 0, AToBErr = None, BToAErr = None\<rparr>"
proof -
  obtain c r where "copy_step\<^sup>*\<^sup>* (start sample_conn sample_conn sample_reads sample_writes [Chunk [] (Some EOFErr)] []) c"
    "copyBidirectionalResult c = Some r" using sample_finished by auto
  with copyBidirectional_deterministic [OF this] sample_copy show ?thesis
    by (intro exI [of _ c]) (simp add: copy_spec_def read_end_def)
qed

theorem copyBidirectional_half_close_example:
  "\<exists>c rest. copyBidirectionalResult c \<noteq> None \<and> [1, 2, 3] = delivered (ab c) @ rest
    \<and> write_shut (raw_of (dst_conn (ab c))) = dst_closed (ab c)"
proof -
  obtain c where c: "copy_step\<^sup>*\<^sup>* (start sample_conn sample_conn sample_reads sample_writes [Chunk [] (Some EOFErr)] []) c"
    "copyBidirectionalResult c \<noteq> None" using sample_finished by auto
  moreover have "source_bytes sample_reads = [1, 2, 3]" by (simp add: sample_reads_def read_end_def)
  moreover have "\<not> write_shut (fresh_conn True True)" "has_CloseWrite (fresh_conn True True)" "shutdown_ok (fresh_conn True True)"
    by (simp_all add: fresh_conn_def)
  ultimately show ?thesis using copyBidirectional_half_close [OF c(1) [unfolded sample_conn_def]] by auto
qed

theorem copyBidirectional_returns_example:
  "\<exists>c'. copy_step\<^sup>*\<^sup>* (start sample_conn sample_conn sample_reads sample_writes [Chunk [] (Some EOFErr)] []) c'
    \<and> copyBidirectionalResult c' \<noteq> None"
  by (rule copyBidirectional_returns [OF rtranclp.rtrancl_refl]) (simp_all add: sample_copy read_end_def)

theorem writeAll_correct_example: "fst (writeAll [1, 2, 3 :: byte] [(2, None), (1, None)]) = [1, 2, 3]"
proof -
  have "snd (writeAll [1, 2, 3 :: byte] [(2, None), (1, None)]) = Some None" by simp
  with writeAll_correct [of "[1, 2, 3 :: byte]" "[(2, None), (1, None)]"] show ?thesis by auto
qed

end
