(* ===== verification/Argo_Idle.thy ===== *)
theory Argo_Idle
  imports Argo_Copy
begin

text \<open>
  \<open>main.go\<close>, copying under the idle timeout: what the peers do and when, the scripts of reads and
  writes that a direction of the copy sees through its \<open>idleTimeoutConn\<close>s, and the consequence for the
  bridges: once the peers have gone silent, even without closing, the copy ends and its connection
  slot is given back. (Peers that keep sending within the timeout keep their connection, by
  \<open>idle_timeout_cuts\<close>.)
\<close>

section \<open>Timed traffic\<close>

text \<open>
  One iteration of \<open>io.Copy\<close> as the peers determine it: when the next read could return and with
  what, and when, if ever, the write that follows could return and with what.
\<close>

record traffic =
  arrives :: int
  carries :: read_result
  accepts :: "int option"
  takes :: "nat \<times> io_err option"

definition timeout_read :: read_result where
  "timeout_read = Chunk [] (Some DeadlineExceeded)"

text \<open>Whether the loop of \<open>io.Copy\<close> ends with this read and this write.\<close>

definition ends_copy :: "read_result \<Rightarrow> nat \<times> io_err option \<Rightarrow> bool" where
  "ends_copy x w =
     (case x of Chunk bs er \<Rightarrow>
        read_end er \<noteq> None \<or> bs \<noteq> [] \<and> (fst w \<noteq> length bs \<or> snd w \<noteq> None))"

text \<open>
  The scripts of a direction from \<open>src\<close> to \<open>dst\<close> that starts at \<open>now\<close>, and the time at which the
  direction ends, if it does. The list holds all reads that the peer still provides for; behind it
  the peer is silent for ever and does not close.
\<close>

fun timed_run :: "net_conn \<Rightarrow> net_conn \<Rightarrow> int \<Rightarrow> traffic list \<Rightarrow> read_result list \<times> write_script \<times> int option" where
  "timed_run src dst now [] =
     (case Read now None src of
        (TimedOut t, _) \<Rightarrow> ([timeout_read], [], Some t)
      | _ \<Rightarrow> ([], [], None))"
| "timed_run src dst now (x # xs) =
     (case Read now (Some (arrives x)) src of
        (TimedOut t, _) \<Rightarrow> ([timeout_read], [], Some t)
      | (Never, _) \<Rightarrow> ([], [], None)
      | (Ready t, src') \<Rightarrow>
          (case carries x of Chunk bs er \<Rightarrow>
             if bs = [] then
               (if ends_copy (carries x) (takes x) then ([carries x], [], Some t)
                else (case timed_run src' dst t xs of (rs, ws, e) \<Rightarrow> (carries x # rs, ws, e)))
             else
               (case Write t (accepts x) dst of
                  (TimedOut t', _) \<Rightarrow> ([carries x], [(0, Some DeadlineExceeded)], Some t')
                | (Never, _) \<Rightarrow> ([carries x], [], None)
                | (Ready t', dst') \<Rightarrow>
                    if ends_copy (carries x) (takes x) then ([carries x], [takes x], Some t')
                    else (case timed_run src' dst' t' xs of
                            (rs, ws, e) \<Rightarrow> (carries x # rs, takes x # ws, e)))))"

section \<open>Every direction ends\<close>

lemma copy_all_ends:
  "ends_copy (Chunk bs er) (n, e) \<Longrightarrow> bs \<noteq> [] \<Longrightarrow> snd (copy_all [Chunk bs er] [(n, e)]) \<noteq> None"
  by (auto simp: ends_copy_def split: option.splits)

lemma copy_all_goes_on:
  "\<not> ends_copy (Chunk bs er) (n, e) \<Longrightarrow>
   snd (copy_all (Chunk bs er # rs) (if bs = [] then ws else (n, e) # ws)) = snd (copy_all rs ws)"
  by (auto simp: ends_copy_def split: option.splits prod.splits)

lemma conn_wait_bound:
  assumes "0 \<le> l" "conn_wait (Some (now + l)) now arrival \<noteq> Never"
  shows "\<exists>t. (conn_wait (Some (now + l)) now arrival = Ready t \<or> conn_wait (Some (now + l)) now arrival = TimedOut t)
    \<and> now \<le> t \<and> t \<le> now + l"
  using assms by (cases arrival) (auto simp: conn_wait_def max_def)

context timed_io
begin

text \<open>An operation under a limit returns within it.\<close>

lemma attempt_bound:
  assumes "usable c" "limit c = Some l" "0 \<le> l" "attempt now arrival c = (res, c')"
  shows "(\<exists>t. res = Ready t \<and> t \<le> now + l \<and> usable c' \<and> limit c' = Some l)
    \<or> (\<exists>t. res = TimedOut t \<and> t \<le> now + l)"
proof -
  have res: "res = conn_wait (Some (now + l)) now arrival" "res \<noteq> Never" "usable c'" "limit c' = Some l"
    using attempt_waits [OF assms(1,4)] attempt_returns [OF assms(1,2,4)] assms(2) by (simp_all add: add.commute)
  from conn_wait_bound [OF assms(3), of now arrival] res show ?thesis by metis
qed

end

text \<open>Without a timeout a silent peer blocks its direction for ever.\<close>

lemma silent_peer_blocks:
  "timed_run (withIdleTimeout 0 (Raw (fresh_conn has ok))) dst now [] = ([], [], None)"
  by (simp add: withIdleTimeout_def fresh_conn_def conn_wait_def)

text \<open>A direction that starts at \<open>now\<close> ends, within two timeouts for each of its reads.\<close>

definition run_ends :: "int \<Rightarrow> int \<Rightarrow> read_result list \<times> write_script \<times> int option \<Rightarrow> bool" where
  "run_ends l now run \<longleftrightarrow>
     (case run of (rs, ws, e) \<Rightarrow>
        snd (copy_all rs ws) \<noteq> None \<and> (\<exists>t. e = Some t \<and> t \<le> now + 2 * int (length rs) * l))"

lemma run_ends_now:
  assumes "snd (copy_all [r] ws) \<noteq> None" "t \<le> now + l + l"
  shows "run_ends l now ([r], ws, Some t)"
  using assms by (simp add: run_ends_def)

lemma timeout_ends: "snd (copy_all [timeout_read] ws) \<noteq> None"
  by (simp add: timeout_read_def read_end_def)

text \<open>The end of an iteration at \<open>t\<close>: the copy is over, or goes on with the rest of the run.\<close>

lemma run_ends_iteration:
  assumes "run_ends l t run" "t \<le> now + l + l" "own = (if bs = [] then [] else [w])"
  shows "run_ends l now
    (if ends_copy (Chunk bs er) w then ([Chunk bs er], own, Some t)
     else (case run of (rs, ws, e) \<Rightarrow> (Chunk bs er # rs, own @ ws, e)))"
proof (cases "ends_copy (Chunk bs er) w")
  case True
  then have "snd (copy_all [Chunk bs er] own) \<noteq> None"
    using assms(3) by (cases w) (auto simp: ends_copy_def split: option.splits)
  with True assms(2) show ?thesis by (simp add: run_ends_now)
next
  case False
  obtain rs ws e where run: "run = (rs, ws, e)" by (metis prod_cases3)
  have "snd (copy_all (Chunk bs er # rs) (own @ ws)) = snd (copy_all rs ws)"
    using False assms(3) by (cases w) (auto simp: ends_copy_def split: option.splits prod.splits)
  moreover have "2 * int (length (Chunk bs er # rs)) * l = l + l + 2 * int (length rs) * l"
    by (simp add: algebra_simps)
  ultimately show ?thesis using assms(1,2) False by (auto simp: run_ends_def run)
qed

lemma timed_run_ends:
  assumes "0 \<le> l"
  shows "reads_usable src \<Longrightarrow> writes_usable dst \<Longrightarrow> idle_limit src = Some l \<Longrightarrow> idle_limit dst = Some l \<Longrightarrow>
    run_ends l now (timed_run src dst now xs)"
proof (induction xs arbitrary: src dst now)
  case Nil
  have "fst (Read now None src) = TimedOut (now + l)"
    using Nil.prems assms by (intro reading.attempt_late) auto
  then show ?case using timeout_ends assms by (cases "Read now None src") (simp add: run_ends_def)
next
  case (Cons x xs)
  obtain res src' where r: "Read now (Some (arrives x)) src = (res, src')" by force
  obtain bs er where x: "carries x = Chunk bs er" by (cases "carries x")
  consider (late) t where "res = TimedOut t" "t \<le> now + l"
    | (ready) t where "res = Ready t" "t \<le> now + l" "reads_usable src'" "idle_limit src' = Some l"
    using reading.attempt_bound [OF Cons.prems(1,3) assms r] by blast
  then show ?case
  proof cases
    case late
    with r assms timeout_ends run_ends_now [where r = timeout_read and ws = "[]" and t = t] show ?thesis by simp
  next
    case (ready t)
    obtain res' dst' where w: "Write t (accepts x) dst = (res', dst')" by force
    consider (empty) "bs = []" | (stuck) t' where "bs \<noteq> []" "res' = TimedOut t'" "t' \<le> t + l"
      | (sent) t' where "bs \<noteq> []" "res' = Ready t'" "t' \<le> t + l" "writes_usable dst'" "idle_limit dst' = Some l"
      using writing.attempt_bound [OF Cons.prems(2,4) assms w] by blast
    then show ?thesis
    proof cases
      case empty
      with run_ends_iteration [OF Cons.IH [OF ready(3) Cons.prems(2) ready(4) Cons.prems(4)], of t now "[]" "[]" "takes x" er]
        ready r x assms show ?thesis by (simp split: if_splits prod.splits)
    next
      case (stuck t')
      with run_ends_now [where r = "carries x" and ws = "[(0, Some DeadlineExceeded)]" and t = t'] ready r w x show ?thesis
        by (simp split: option.split)
    next
      case (sent t')
      with run_ends_iteration [OF Cons.IH [OF ready(3) sent(4) ready(4) sent(5)], of t' now "[takes x]" bs "takes x" er]
        ready r w x assms show ?thesis by (simp split: if_splits prod.splits)
    qed
  qed
qed

section \<open>Properties\<close>

text \<open>
  C9: With an idle timeout a bridge does not hang on peers that go silent. The peers send any finite
  number of times, at any instants, and then never send nor close again: each direction of the copy
  still ends, at the latest two timeouts after its start for each of its reads that returned (the last
  of which may be the timeout), and from every state that the copy can reach it goes on until both
  outcomes are in, so it returns its result.
\<close>

theorem idle_copy_returns:
  assumes "0 < configured"
    "timed_run (withIdleTimeout configured (Raw a)) (withIdleTimeout configured (Raw b)) now xs = (rs, ws, e)"
    "timed_run (withIdleTimeout configured (Raw b)) (withIdleTimeout configured (Raw a)) now ys = (rs', ws', e')"
    "copy_step\<^sup>*\<^sup>* (start (withIdleTimeout configured (Raw a)) (withIdleTimeout configured (Raw b)) rs ws rs' ws') c"
  shows "(\<exists>c'. copy_step\<^sup>*\<^sup>* c c' \<and> copyBidirectionalResult c' \<noteq> None)
    \<and> (\<exists>t. e = Some t \<and> t \<le> now + 2 * int (length rs) * configured)
    \<and> (\<exists>t. e' = Some t \<and> t \<le> now + 2 * int (length rs') * configured)"
proof -
  have ends: "run_ends configured now
      (timed_run (withIdleTimeout configured (Raw q)) (withIdleTimeout configured (Raw r)) now zs)" for q r zs
    using assms(1) wrapped_conn [OF assms(1)] by (intro timed_run_ends) simp_all
  have "run_ends configured now (rs, ws, e)" "run_ends configured now (rs', ws', e')"
    using ends [where q = a and r = b and zs = xs] ends [where q = b and r = a and zs = ys] assms(2,3) by simp_all
  with copy_terminates [OF copy_reachable_inv [OF assms(4)]] show ?thesis by (auto simp: run_ends_def)
qed

section \<open>Examples\<close>

text \<open>Two peers that stop in the middle of a conversation and never close.\<close>

definition sample_request :: traffic where
  "sample_request = \<lparr>arrives = 2, carries = Chunk [1, 2] None, accepts = Some 3, takes = (2, None)\<rparr>"

definition silent_pair :: "read_result list \<times> write_script \<times> int option" where
  "silent_pair = timed_run sample_conn sample_conn 0 [sample_request]"

lemma silent_pair_run: "silent_pair = ([Chunk [1, 2] None, timeout_read], [(2, None)], Some 8)"
  by (simp add: silent_pair_def sample_conn_def sample_request_def withIdleTimeout_def fresh_conn_def
      conn_wait_def ends_copy_def read_end_def Read.simps(2) Write.simps(2))

theorem idle_copy_returns_example:
  "\<exists>c'. copy_step\<^sup>*\<^sup>* (start sample_conn sample_conn [Chunk [1, 2] None, timeout_read] [(2, None)]
      [Chunk [1, 2] None, timeout_read] [(2, None)]) c' \<and> copyBidirectionalResult c' \<noteq> None"
  using idle_copy_returns [OF _ silent_pair_run [unfolded silent_pair_def sample_conn_def]
      silent_pair_run [unfolded silent_pair_def sample_conn_def] rtranclp.rtrancl_refl]
  by (simp add: sample_conn_def)

end
