(* ===== verification/Argo_Session.thy ===== *)
theory Argo_Session
  imports Argo_Settings Argo_Bridge Argo_Idle
begin

text \<open>
  \<open>main.go\<close>, the life of a bridge and of one connection: the listener that is opened before the
  accept loop, the three functions that bridge a connection with their deferred closes, the counter
  that numbers connections and what is logged about them. What dialling and copying yield are
  arguments: \<open>dial\<close> the connection, if it is made, \<open>copied\<close> the result of the copy between two
  connections (any of those that \<open>Argo_Copy\<close> allows).
\<close>

section \<open>Opening a bridge\<close>

text \<open>
  The start of each of the four bridges: without its listener the process exits (\<open>None\<close>), else the
  limiter is made with the configured size.
\<close>

definition open_bridge :: "settings \<Rightarrow> bool \<Rightarrow> bridge option" where
  "open_bridge cfg listen_ok =
     (if listen_ok then Some (new_bridge (nat (configuredConnectionLimit cfg))) else None)"

section \<open>Bridging one connection\<close>

text \<open>\<open>connectionIDs\<close> is an atomic \<open>uint64\<close> of the process.\<close>

definition nextConnectionID :: "uint64 \<Rightarrow> uint64 \<times> uint64" where
  "nextConnectionID connectionIDs = (connectionIDs + 1, connectionIDs + 1)"

datatype target = TCPTarget string | VSOCKTarget uint32 uint32

datatype log_entry = Accepted uint64 target | Closed uint64 target copyResult

definition logConnectionf :: "settings \<Rightarrow> log_entry \<Rightarrow> log_entry list \<Rightarrow> log_entry list" where
  "logConnectionf cfg entry logged = (if logBridgeConnections cfg then logged @ [entry] else logged)"

datatype bridge_error = DialFailed | CopyFailed io_err

text \<open>Which of the two connections are closed when the function returns, and its error.\<close>

record bridged =
  src_closed :: bool
  target_closed :: bool
  bridge_err :: "bridge_error option"

text \<open>The state of the process that the functions share.\<close>

record process =
  connectionIDs :: uint64
  logged :: "log_entry list"

text \<open>What the functions do before they dial and, when they dialled, after the copy.\<close>

definition bridge_begin :: "settings \<Rightarrow> target \<Rightarrow> process \<Rightarrow> uint64 \<times> process" where
  "bridge_begin cfg tgt p =
     (case nextConnectionID (connectionIDs p) of
        (i, n) \<Rightarrow> (i, p\<lparr>connectionIDs := n, logged := logConnectionf cfg (Accepted i tgt) (logged p)\<rparr>))"

definition bridge_finish :: "settings \<Rightarrow> uint64 \<Rightarrow> target \<Rightarrow> copyResult \<Rightarrow> process \<Rightarrow> process" where
  "bridge_finish cfg i tgt result p = p\<lparr>logged := logConnectionf cfg (Closed i tgt result) (logged p)\<rparr>"

definition bridge_conn ::
  "settings \<Rightarrow> target \<Rightarrow> net_conn option \<Rightarrow> (net_conn \<Rightarrow> net_conn \<Rightarrow> copyResult) \<Rightarrow> net_conn \<Rightarrow> process \<Rightarrow>
    bridged \<times> process"
where
  "bridge_conn cfg tgt dial copied src p =
     (case bridge_begin cfg tgt p of
        (i, p1) \<Rightarrow>
          (case dial of
             None \<Rightarrow> (\<lparr>src_closed = True, target_closed = False, bridge_err = Some DialFailed\<rparr>, p1)
           | Some conn \<Rightarrow>
               let idle = configuredBridgeIdleTimeout cfg;
                   result = copied (withIdleTimeout idle src) (withIdleTimeout idle conn)
               in (\<lparr>src_closed = True, target_closed = True, bridge_err = map_option CopyFailed (Err result)\<rparr>,
                   bridge_finish cfg i tgt result p1)))"

definition bridgeToTCPHost ::
  "settings \<Rightarrow> string \<Rightarrow> net_conn option \<Rightarrow> (net_conn \<Rightarrow> net_conn \<Rightarrow> copyResult) \<Rightarrow> net_conn \<Rightarrow> process \<Rightarrow> bridged \<times> process"
where
  "bridgeToTCPHost cfg tgt = bridge_conn cfg (TCPTarget tgt)"

definition bridgeToVSOCK ::
  "settings \<Rightarrow> uint32 \<Rightarrow> uint32 \<Rightarrow> net_conn option \<Rightarrow> (net_conn \<Rightarrow> net_conn \<Rightarrow> copyResult) \<Rightarrow> net_conn \<Rightarrow> process \<Rightarrow>
    bridged \<times> process"
where
  "bridgeToVSOCK cfg cid port = bridge_conn cfg (VSOCKTarget cid port)"

definition local_target :: "uint16 \<Rightarrow> string" where
  "local_target tcpPort = JoinHostPort ''127.0.0.1'' (Itoa (unat tcpPort))"

definition bridgeToTCP ::
  "settings \<Rightarrow> uint16 \<Rightarrow> net_conn option \<Rightarrow> (net_conn \<Rightarrow> net_conn \<Rightarrow> copyResult) \<Rightarrow> net_conn \<Rightarrow> process \<Rightarrow> bridged \<times> process"
where
  "bridgeToTCP cfg tcpPort = bridge_conn cfg (TCPTarget (local_target tcpPort))"

section \<open>All connections of the process\<close>

text \<open>
  The goroutines of all bridges, interleaved: a connection is taken up, or one being bridged ends
  because it could not be dialled or with the result of its copy. The state is the process and
  the connections being bridged.
\<close>

inductive session_step ::
  "settings \<Rightarrow> process \<times> (uint64 \<times> target) list \<Rightarrow> process \<times> (uint64 \<times> target) list \<Rightarrow> bool" for cfg where
  start: "bridge_begin cfg tgt p = (i, p') \<Longrightarrow> session_step cfg (p, open) (p', open @ [(i, tgt)])"
| undialled: "c \<in> set open \<Longrightarrow> session_step cfg (p, open) (p, remove1 c open)"
| copied: "(i, tgt) \<in> set open \<Longrightarrow>
    session_step cfg (p, open) (bridge_finish cfg i tgt result p, remove1 (i, tgt) open)"

inductive_cases session_stepE: "session_step cfg (p, open) s"

text \<open>
  A call of one of the functions is a run of these steps. It closes the source connection always
  and the target if it was dialled, and its error is that of the dial or of the copy.
\<close>

lemma bridge_conn_session:
  assumes "bridge_conn cfg tgt dial copied src p = (r, p')" "(connectionIDs p + 1, tgt) \<notin> set opn"
  shows "(session_step cfg)\<^sup>*\<^sup>* (p, opn) (p', opn) \<and> src_closed r \<and> (target_closed r \<longleftrightarrow> dial \<noteq> None)
    \<and> bridge_err r =
      (case dial of
         None \<Rightarrow> Some DialFailed
       | Some conn \<Rightarrow>
           map_option CopyFailed (Err (copied (withIdleTimeout (configuredBridgeIdleTimeout cfg) src)
             (withIdleTimeout (configuredBridgeIdleTimeout cfg) conn))))"
proof -
  let ?c = "(connectionIDs p + 1, tgt)"
  obtain p1 where begun: "bridge_begin cfg tgt p = (connectionIDs p + 1, p1)"
    by (simp add: bridge_begin_def nextConnectionID_def)
  have gone: "remove1 ?c (opn @ [?c]) = opn" using assms(2) by (simp add: remove1_append)
  have taken: "session_step cfg (p, opn) (p1, opn @ [?c])" by (rule session_step.start [OF begun])
  have two_steps: "(session_step cfg)\<^sup>*\<^sup>* x z" if "session_step cfg x y" "session_step cfg y z" for x y z
    using that by (rule converse_rtranclp_into_rtranclp [OF _ rtranclp.rtrancl_into_rtrancl [OF rtranclp.rtrancl_refl]])
  show ?thesis
  proof (cases dial)
    case None
    have "session_step cfg (p1, opn @ [?c]) (p1, opn)"
      using session_step.undialled [of ?c "opn @ [?c]" cfg p1] gone by simp
    then have "(session_step cfg)\<^sup>*\<^sup>* (p, opn) (p1, opn)"
      by (rule two_steps [OF taken])
    with None assms(1) begun show ?thesis by (auto simp: bridge_conn_def)
  next
    case (Some conn)
    have "session_step cfg (p1, opn @ [?c]) (bridge_finish cfg (connectionIDs p + 1) tgt result p1, opn)" for result
      using session_step.copied [of "connectionIDs p + 1" tgt "opn @ [?c]" cfg p1 result] gone by simp
    then have "(session_step cfg)\<^sup>*\<^sup>* (p, opn) (bridge_finish cfg (connectionIDs p + 1) tgt result p1, opn)" for result
      by (rule two_steps [OF taken])
    with Some assms(1) begun show ?thesis by (auto simp: bridge_conn_def Let_def)
  qed
qed

definition first_process :: process where
  "first_process = \<lparr>connectionIDs = 0, logged = []\<rparr>"

definition accepted_in :: "log_entry list \<Rightarrow> (uint64 \<times> target) list" where
  "accepted_in = List.map_filter (\<lambda>e. case e of Accepted i t \<Rightarrow> Some (i, t) | _ \<Rightarrow> None)"

definition closed_in :: "log_entry list \<Rightarrow> (uint64 \<times> target) list" where
  "closed_in = List.map_filter (\<lambda>e. case e of Closed i t r \<Rightarrow> Some (i, t) | _ \<Rightarrow> None)"

lemma log_simps [simp]:
  "accepted_in [] = []" "closed_in [] = []"
  "accepted_in (l @ [Accepted i t]) = accepted_in l @ [(i, t)]" "accepted_in (l @ [Closed i t r]) = accepted_in l"
  "closed_in (l @ [Accepted i t]) = closed_in l" "closed_in (l @ [Closed i t r]) = closed_in l @ [(i, t)]"
  by (simp_all add: accepted_in_def closed_in_def List.map_filter_def)

text \<open>The numbers that the counter gives out: 1, 2, ... modulo \<open>2 ^ 64\<close>.\<close>

definition numbers :: "nat \<Rightarrow> uint64 list" where
  "numbers n = map of_nat [1..<Suc n]"

lemma numbers_Suc: "numbers (Suc n) = numbers n @ [of_nat (Suc n)]"
  by (simp add: numbers_def)

lemma numbers_distinct: "n < 2 ^ 64 \<Longrightarrow> distinct (numbers n)"
proof -
  assume n: "n < 2 ^ 64"
  have "inj_on (of_nat :: nat \<Rightarrow> uint64) {1..<Suc n}"
  proof (rule inj_onI)
    fix x y assume "x \<in> {1..<Suc n}" "y \<in> {1..<Suc n}" "(of_nat x :: uint64) = of_nat y"
    then show "x = y" using n by (simp add: word_of_nat_eq_iff take_bit_eq_mod)
  qed
  then show ?thesis by (simp add: numbers_def distinct_map del: upt_Suc)
qed

text \<open>The numbers, the connections taken up, those closed and those being bridged.\<close>

definition session_ok ::
  "uint64 \<Rightarrow> (uint64 \<times> target) list \<Rightarrow> (uint64 \<times> target) list \<Rightarrow> (uint64 \<times> target) list \<Rightarrow> bool"
where
  "session_ok ids acc closed opn \<longleftrightarrow>
     ids = of_nat (length acc) \<and> map fst acc = numbers (length acc) \<and> set (closed @ opn) \<subseteq> set acc
     \<and> (length acc < 2 ^ 64 \<longrightarrow> distinct (closed @ opn))"

lemma session_ok_start:
  assumes "session_ok ids acc closed opn"
  shows "session_ok (ids + 1) (acc @ [(ids + 1, tgt)]) closed (opn @ [(ids + 1, tgt)])"
proof -
  have ids: "ids + 1 = of_nat (Suc (length acc))" using assms by (simp add: session_ok_def)
  have fresh: "(ids + 1, tgt) \<notin> set acc" if "Suc (length acc) < 2 ^ 64"
  proof
    assume "(ids + 1, tgt) \<in> set acc"
    then have "ids + 1 \<in> set (numbers (length acc))"
      using assms by (metis fst_conv image_eqI list.set_map session_ok_def)
    with numbers_distinct [OF that] ids show False by (simp add: numbers_Suc add.commute)
  qed
  have "map fst (acc @ [(ids + 1, tgt)]) = numbers (Suc (length acc))"
    using assms ids by (simp add: session_ok_def numbers_Suc)
  with assms ids fresh show ?thesis by (auto simp: session_ok_def)
qed

lemma session_ok_drop: "session_ok ids acc closed opn \<Longrightarrow> session_ok ids acc closed (remove1 c opn)"
  using set_remove1_subset [of c opn] by (auto simp: session_ok_def distinct_remove1)

lemma session_ok_close:
  "session_ok ids acc closed opn \<Longrightarrow> c \<in> set opn \<Longrightarrow> session_ok ids acc (closed @ [c]) (remove1 c opn)"
  using set_remove1_subset [of c opn] by (auto simp: session_ok_def distinct_remove1)

definition session_inv :: "process \<times> (uint64 \<times> target) list \<Rightarrow> bool" where
  "session_inv s = session_ok (connectionIDs (fst s)) (accepted_in (logged (fst s))) (closed_in (logged (fst s))) (snd s)"

lemma session_step_inv:
  assumes "logBridgeConnections cfg" "session_step cfg (p, opn) s" "session_inv (p, opn)"
  shows "session_inv s"
  using assms(2)
proof (rule session_stepE)
  fix tgt i p'
  assume "bridge_begin cfg tgt p = (i, p')" "s = (p', opn @ [(i, tgt)])"
  with assms(1,3) session_ok_start show ?thesis
    by (auto simp: bridge_begin_def nextConnectionID_def logConnectionf_def session_inv_def)
next
  fix i tgt result
  assume "(i, tgt) \<in> set opn" "s = (bridge_finish cfg i tgt result p, remove1 (i, tgt) opn)"
  with assms(1,3) session_ok_close show ?thesis
    by (auto simp: bridge_finish_def logConnectionf_def session_inv_def)
qed (use assms(3) session_ok_drop in \<open>simp add: session_inv_def\<close>)

lemma session_reachable:
  "(session_step cfg)\<^sup>*\<^sup>* (first_process, []) s \<Longrightarrow> logBridgeConnections cfg \<Longrightarrow> session_inv s"
proof (induction rule: rtranclp_induct)
  case base
  show ?case by (simp add: session_inv_def session_ok_def first_process_def numbers_def)
next
  case (step s s')
  then show ?case by (cases s) (auto intro: session_step_inv)
qed

section \<open>Properties\<close>

text \<open>
  C22: The log of the connections pairs up. With logging on, and as long as fewer than 2^64
  connections were taken up, in every interleaving of all bridges the connections have different
  numbers, and each closing line belongs to exactly one connection that was taken up before, with
  the same target.
\<close>

theorem connection_log_pairs:
  assumes "logBridgeConnections cfg" "(session_step cfg)\<^sup>*\<^sup>* (first_process, []) (p, opn)"
    "length (accepted_in (logged p)) < 2 ^ 64"
  shows "distinct (map fst (accepted_in (logged p))) \<and> distinct (map fst (closed_in (logged p)))
    \<and> set (closed_in (logged p)) \<subseteq> set (accepted_in (logged p)) - set opn"
proof -
  have "session_ok (connectionIDs p) (accepted_in (logged p)) (closed_in (logged p)) opn"
    using session_reachable [OF assms(2,1)] by (simp add: session_inv_def)
  then have inv: "map fst (accepted_in (logged p)) = numbers (length (accepted_in (logged p)))"
    "set (closed_in (logged p)) \<union> set opn \<subseteq> set (accepted_in (logged p))" "distinct (closed_in (logged p) @ opn)"
    using assms(3) by (simp_all add: session_ok_def)
  have dist: "distinct (map fst (accepted_in (logged p)))"
    unfolding inv(1) by (rule numbers_distinct [OF assms(3)])
  then have "inj_on fst (set (closed_in (logged p)))"
    using inv(2) by (auto simp: distinct_map intro: inj_on_subset)
  with dist inv show ?thesis by (auto simp: distinct_map)
qed

section \<open>Examples\<close>

definition logging_settings :: settings where
  "logging_settings = load_settings (\<lambda>s. None) (\<lambda>nm. if nm = ''ARGONAUT_LOG_CONNECTIONS'' then ''true'' else [])"

definition one_accepted :: process where
  "one_accepted = snd (bridge_begin logging_settings (TCPTarget ''example.com:443'') first_process)"

theorem connection_log_pairs_example: "distinct (map fst (accepted_in (logged one_accepted)))"
proof -
  have log: "logBridgeConnections logging_settings"
    by (simp add: logging_settings_def load_settings_def envBool_def ParseBool_def)
  have taken: "bridge_begin logging_settings (TCPTarget ''example.com:443'') first_process = (1, one_accepted)"
    by (simp add: one_accepted_def bridge_begin_def nextConnectionID_def first_process_def)
  have "length (accepted_in (logged one_accepted)) < 2 ^ 64"
    using log by (simp add: one_accepted_def bridge_begin_def nextConnectionID_def first_process_def
        logConnectionf_def log_simps(3) [of "[]", simplified])
  moreover have "(session_step logging_settings)\<^sup>*\<^sup>* (first_process, []) (one_accepted, [(1, TCPTarget ''example.com:443'')])"
    using session_step.start [OF taken, of "[]"] by auto
  ultimately show ?thesis using connection_log_pairs [OF log] by simp
qed

end
