(* ===== verification/Argo_Run.thy ===== *)
theory Argo_Run
  imports Argo_Hosts Argo_Session
begin

text \<open>
  \<open>main.go\<close>, the modes: the dispatch on the command line, \<open>hostMode\<close>, \<open>enclaveMode\<close> and \<open>configMode\<close> with \<open>config send\<close> and \<open>config recv\<close>, and
  \<open>loopback_linux.go\<close>. A mode is a function of its arguments and of what the system calls
  report; its result is the way it exits or the listeners and targets it starts its bridges with.
\<close>

section \<open>The command line\<close>

datatype command = RunHost | RunEnclave | RunConfig | RunNsm | Usage

definition main_mode :: "string list \<Rightarrow> command" where
  "main_mode args =
     (if length args < 2 then Usage
      else if args ! 1 = ''host'' then RunHost
      else if args ! 1 = ''enclave'' then RunEnclave
      else if args ! 1 = ''config'' then RunConfig
      else if args ! 1 = ''nsm'' then RunNsm
      else Usage)"

definition parentCID :: uint32 where
  "parentCID = 3"

definition configVsockPort :: uint32 where
  "configVsockPort = 7777"

section \<open>Sending and receiving the configuration\<close>

text \<open>
  \<open>sendConfigVSOCK\<close>: the bytes that were sent, and \<open>None\<close> if the process exits or hangs in a
  write. \<open>dial_ok\<close> tells whether the connection is made.
\<close>

definition sendConfigVSOCK :: "bool \<Rightarrow> write_script \<Rightarrow> string \<Rightarrow> string \<times> unit option" where
  "sendConfigVSOCK dial_ok ws bytes =
     (if \<not> dial_ok then ([], None)
      else
        (case writeAll bytes ws of
           (sent, Some None) \<Rightarrow> (sent, Some ())
         | (sent, _) \<Rightarrow> (sent, None)))"

datatype send_end = SendUsage | SendBadCID | SendBadPort | SendReadFailed read_error | SendFailed | SendDone uint32 uint32 string

definition configSend :: "string list \<Rightarrow> string \<Rightarrow> bool \<Rightarrow> bool \<Rightarrow> write_script \<Rightarrow> send_end" where
  "configSend args stdin stdin_fails dial_ok ws =
     (if length args \<noteq> 5 then SendUsage
      else
        (case ParseUint 32 (args ! 3) of
           None \<Rightarrow> SendBadCID
         | Some cid \<Rightarrow>
             (case ParseUint 32 (args ! 4) of
                None \<Rightarrow> SendBadPort
              | Some port \<Rightarrow>
                  (case readAllLimited stdin stdin_fails maxConfigBytes of
                     Inl e \<Rightarrow> SendReadFailed e
                   | Inr bytes \<Rightarrow>
                       (case sendConfigVSOCK dial_ok ws bytes of
                          (sent, Some _) \<Rightarrow> SendDone (of_nat cid) (of_nat port) sent
                        | _ \<Rightarrow> SendFailed)))))"

datatype recv_end = RecvUsage | RecvBadPort | RecvListenFailed | RecvAcceptFailed | RecvReadFailed read_error
  | RecvWriteFailed | RecvDone string

text \<open>\<open>config recv\<close>: \<open>conn\<close> is what the one accepted connection delivers; the result what reaches stdout.\<close>

definition configRecv :: "string list \<Rightarrow> bool \<Rightarrow> bool \<Rightarrow> string \<Rightarrow> bool \<Rightarrow> bool \<Rightarrow> recv_end" where
  "configRecv args listen_ok accept_ok conn_bytes conn_fails stdout_ok =
     (if length args \<noteq> 4 then RecvUsage
      else
        (case ParseUint 32 (args ! 3) of
           None \<Rightarrow> RecvBadPort
         | Some port \<Rightarrow>
             if \<not> listen_ok then RecvListenFailed
             else if \<not> accept_ok then RecvAcceptFailed
             else
               (case readAllLimited conn_bytes conn_fails maxConfigBytes of
                  Inl e \<Rightarrow> RecvReadFailed e
                | Inr bytes \<Rightarrow> if stdout_ok then RecvDone bytes else RecvWriteFailed)))"

datatype config_command = ConfigSend | ConfigRecv | ConfigUsage

definition configMode :: "string list \<Rightarrow> config_command" where
  "configMode args =
     (if length args < 4 then ConfigUsage
      else if args ! 2 = ''send'' then ConfigSend
      else if args ! 2 = ''recv'' then ConfigRecv
      else ConfigUsage)"

section \<open>Host mode\<close>

text \<open>
  The bridges of the host: the TCP address and the VSOCK address of the inbound one, and for each
  endpoint the VSOCK port it listens on, the TCP target and the CID it admits.
\<close>

record host_plan =
  sent_config :: string
  sent_to :: "uint32 \<times> uint32"
  host_inbound :: "string \<times> uint32 \<times> uint32"
  host_outbound :: "(uint32 \<times> string \<times> uint32) list"

datatype host_end =
    HostUsage
  | InvalidCID string
  | ConfigReadFailed
  | ConfigParseFailed parse_error
  | HostConfigInvalid config_error
  | ConfigSendFailed
  | HostRunning host_plan

definition host_target :: "Endpoint \<Rightarrow> string" where
  "host_target ep = JoinHostPort (Host ep) (Itoa (unat (TCPPort ep)))"

definition hostMode :: "settings \<Rightarrow> string list \<Rightarrow> (string \<rightharpoonup> string) \<Rightarrow> bool \<Rightarrow> write_script \<Rightarrow> host_end" where
  "hostMode cfg args files dial_ok ws =
     (if length args \<noteq> 4 then HostUsage
      else
        (case ParseUint 32 (args ! 2) of
           None \<Rightarrow> InvalidCID (args ! 2)
         | Some cid \<Rightarrow>
             (case files (args ! 3) of
                None \<Rightarrow> ConfigReadFailed
              | Some rawConfig \<Rightarrow>
                  (case ParseConfig rawConfig of
                     Inl e \<Rightarrow> ConfigParseFailed e
                   | Inr parsed \<Rightarrow>
                       (case ValidateConfig (Some parsed) validationModeHost of
                          (Some hostCfg, Inr _) \<Rightarrow>
                            (case sendConfigVSOCK dial_ok ws rawConfig of
                               (sent, Some _) \<Rightarrow>
                                 HostRunning
                                   \<lparr>sent_config = sent, sent_to = (of_nat cid, configVsockPort),
                                    host_inbound =
                                      (JoinHostPort (configuredHostHTTPBindAddr cfg) (Itoa (unat (HTTPPort hostCfg))),
                                       of_nat cid, HTTPVsockPort hostCfg),
                                    host_outbound =
                                      map (\<lambda>ep. (VsockPort ep, host_target ep, of_nat cid))
                                        (case Endpoints hostCfg of None \<Rightarrow> [] | Some eps \<Rightarrow> eps)\<rparr>
                             | _ \<Rightarrow> ConfigSendFailed)
                        | (_, Inl e) \<Rightarrow> HostConfigInvalid e
                        | (None, Inr _) \<Rightarrow> HostConfigInvalid ConfigNil)))))"

section \<open>Enclave mode\<close>

text \<open>
  \<open>ensureLoopbackUp\<close> on Linux: the interface flags afterwards and whether it succeeded. The bit
  \<open>IFF_UP\<close> is the lowest one.
\<close>

record loopback_calls =
  socket_ok :: bool
  ifreq_ok :: bool
  get_flags_ok :: bool
  set_flags_ok :: bool

datatype loopback_error = SocketFailed | PrepareFailed | ReadFlagsFailed | SetUpFailed

unbundle bit_operations_syntax

definition IFF_UP :: uint16 where
  "IFF_UP = 1"

definition ensureLoopbackUp :: "loopback_calls \<Rightarrow> uint16 \<Rightarrow> uint16 \<times> (loopback_error + unit)" where
  "ensureLoopbackUp calls flags =
     (if \<not> socket_ok calls then (flags, Inl SocketFailed)
      else if \<not> ifreq_ok calls then (flags, Inl PrepareFailed)
      else if \<not> get_flags_ok calls then (flags, Inl ReadFlagsFailed)
      else if flags AND IFF_UP \<noteq> 0 then (flags, Inr ())
      else if \<not> set_flags_ok calls then (flags, Inl SetUpFailed)
      else (flags OR IFF_UP, Inr ()))"

text \<open>
  The bridges of the enclave: the VSOCK port, the local target and the CID of the inbound one, and
  for each endpoint the address it listens on and the VSOCK address it dials.
\<close>

record enclave_plan =
  enclave_inbound :: "uint32 \<times> string \<times> uint32"
  enclave_outbound :: "(string \<times> uint32 \<times> uint32) list"

datatype enclave_end =
    EnclaveReadFailed read_error
  | EnclaveParseFailed parse_error
  | EnclaveConfigInvalid config_error
  | LoopbackFailed loopback_error
  | HostsFailed hosts_error
  | EnclaveRunning enclave_plan

definition proxy_addr :: "nat \<Rightarrow> Endpoint \<Rightarrow> string" where
  "proxy_addr i ep = JoinHostPort (endpointLocalIP ep i) (Itoa (unat (LocalPort ep)))"

text \<open>The states of the file system, the interface flags and the way the mode goes on.\<close>

definition enclaveMode ::
  "string \<Rightarrow> bool \<Rightarrow> loopback_calls \<Rightarrow> uint16 \<Rightarrow> bool \<Rightarrow> outcomes \<Rightarrow> fs \<Rightarrow> fs list \<times> uint16 \<times> enclave_end"
where
  "enclaveMode stdin stdin_fails calls flags read_ok out fs =
     (case readAllLimited stdin stdin_fails maxConfigBytes of
        Inl e \<Rightarrow> ([fs], flags, EnclaveReadFailed e)
      | Inr rawConfig \<Rightarrow>
          (case ParseConfig rawConfig of
             Inl e \<Rightarrow> ([fs], flags, EnclaveParseFailed e)
           | Inr parsed \<Rightarrow>
               (case ValidateConfig (Some parsed) validationModeEnclave of
                  (Some config, Inr _) \<Rightarrow>
                    (let eps = (case Endpoints config of None \<Rightarrow> [] | Some eps \<Rightarrow> eps)
                     in (case ensureLoopbackUp calls flags of
                           (flags', Inl e) \<Rightarrow> ([fs], flags', LoopbackFailed e)
                         | (flags', Inr _) \<Rightarrow>
                             (case writeHosts read_ok out hostsPath eps fs of
                                (trace, Inl e) \<Rightarrow> (trace, flags', HostsFailed e)
                              | (trace, Inr _) \<Rightarrow>
                                  (trace, flags',
                                   EnclaveRunning
                                     \<lparr>enclave_inbound =
                                        (HTTPVsockPort config, local_target (HTTPTCPPort config), parentCID),
                                      enclave_outbound =
                                        map (\<lambda>i. (proxy_addr i (eps ! i), parentCID, VsockPort (eps ! i)))
                                          [0..<length eps]\<rparr>))))
                | (_, Inl e) \<Rightarrow> ([fs], flags, EnclaveConfigInvalid e)
                | (None, Inr _) \<Rightarrow> ([fs], flags, EnclaveConfigInvalid ConfigNil))))"

section \<open>What a running mode has done\<close>

lemma ParseConfig_facts:
  "ParseConfig raw = Inr cfg \<Longrightarrow> length raw \<le> maxConfigBytes \<and> normalizeConfig cfg = cfg"
  by (auto simp: ParseConfig_def split: if_splits option.splits sum.splits)

lemma readAllLimited_all: "length input \<le> limit \<Longrightarrow> readAllLimited input False limit = Inr input"
  by (simp add: readAllLimited_def)

lemma readAllLimited_Inr: "readAllLimited input fails limit = Inr bytes \<Longrightarrow> bytes = input \<and> length input \<le> limit"
  by (auto simp: readAllLimited_def Let_def split: if_splits)

lemma sendConfigVSOCK_done: "sendConfigVSOCK dial_ok ws bytes = (sent, Some u) \<Longrightarrow> sent = bytes"
  using writeAll_sent [of bytes ws]
  by (auto simp: sendConfigVSOCK_def split: if_splits prod.splits option.splits)

lemma ValidateConfig_Inr:
  assumes "ParseConfig raw = Inr parsed" "ValidateConfig (Some parsed) md = (Some cfg, Inr u)"
  shows "cfg = parsed \<and> (\<exists>eps. Endpoints parsed = Some eps \<and> endpoints_ok eps)"
  using assms(2) ParseConfig_facts [OF assms(1)] check_config_ok [of parsed md]
  by (auto simp: ValidateConfig_def config_ok_def split: option.splits)

lemma hostMode_Running:
  assumes "hostMode cfg args files dial_ok ws = HostRunning pl"
  obtains cid raw parsed eps where "ParseUint 32 (args ! 2) = Some cid" "files (args ! 3) = Some raw"
    "ParseConfig raw = Inr parsed" "Endpoints parsed = Some eps" "endpoints_ok eps"
    "pl = \<lparr>sent_config = raw, sent_to = (of_nat cid, configVsockPort),
       host_inbound = (JoinHostPort (configuredHostHTTPBindAddr cfg) (Itoa (unat (HTTPPort parsed))),
         of_nat cid, HTTPVsockPort parsed),
       host_outbound = map (\<lambda>ep. (VsockPort ep, host_target ep, of_nat cid)) eps\<rparr>"
proof -
  from assms obtain cid raw parsed hostCfg u sent v where
    "ParseUint 32 (args ! 2) = Some cid" "files (args ! 3) = Some raw" and p: "ParseConfig raw = Inr parsed"
    and v: "ValidateConfig (Some parsed) validationModeHost = (Some hostCfg, Inr u)"
    and s: "sendConfigVSOCK dial_ok ws raw = (sent, Some v)"
    and "pl = \<lparr>sent_config = sent, sent_to = (of_nat cid, configVsockPort),
       host_inbound = (JoinHostPort (configuredHostHTTPBindAddr cfg) (Itoa (unat (HTTPPort hostCfg))),
         of_nat cid, HTTPVsockPort hostCfg),
       host_outbound = map (\<lambda>ep. (VsockPort ep, host_target ep, of_nat cid))
         (case Endpoints hostCfg of None \<Rightarrow> [] | Some eps \<Rightarrow> eps)\<rparr>"
    by (auto simp: hostMode_def split: if_splits option.splits sum.splits prod.splits)
  with ValidateConfig_Inr [OF p v] sendConfigVSOCK_done [OF s] that show ?thesis by auto
qed

lemma enclaveMode_Running:
  assumes "enclaveMode stdin stdin_fails calls flags read_ok out fs = (trace, flags', EnclaveRunning ql)"
  obtains parsed eps where "length stdin \<le> maxConfigBytes" "ParseConfig stdin = Inr parsed"
    "Endpoints parsed = Some eps" "endpoints_ok eps"
    "ensureLoopbackUp calls flags = (flags', Inr ())"
    "writeHosts read_ok out hostsPath eps fs = (trace, Inr ())"
    "ql = \<lparr>enclave_inbound = (HTTPVsockPort parsed, local_target (HTTPTCPPort parsed), parentCID),
       enclave_outbound = map (\<lambda>i. (proxy_addr i (eps ! i), parentCID, VsockPort (eps ! i))) [0..<length eps]\<rparr>"
proof -
  from assms obtain raw parsed cfg u where raw: "readAllLimited stdin stdin_fails maxConfigBytes = Inr raw"
    and p: "ParseConfig raw = Inr parsed"
    and v: "ValidateConfig (Some parsed) validationModeEnclave = (Some cfg, Inr u)"
    by (auto simp: enclaveMode_def split: sum.splits prod.splits option.splits)
  from ValidateConfig_Inr [OF p v] obtain eps where eps: "cfg = parsed" "Endpoints parsed = Some eps" "endpoints_ok eps"
    by blast
  from assms raw p v eps show ?thesis
    using that [of parsed eps] readAllLimited_Inr [OF raw]
    by (auto simp: enclaveMode_def Let_def split: sum.splits prod.splits)
qed

lemma proxy_addr_localAddr:
  assumes "endpoint_ok ep" "i < maxEndpoints"
  shows "proxy_addr i ep = localAddr i ep"
proof -
  have "CHR '':'' \<notin> set (endpointLocalIP ep i)"
    using loopback_text_chars [OF endpointLocalIP_loopback [OF assms], of "CHR '':''"]
    by (auto simp: is_digit_def)
  then show ?thesis by (simp add: proxy_addr_def JoinHostPort_def localAddr_def)
qed

lemma proxies_distinct:
  assumes "endpoints_ok eps"
  shows "distinct (map (\<lambda>i. proxy_addr i (eps ! i)) [0..<length eps])"
proof -
  have eps: "list_all endpoint_ok eps" "length eps \<le> maxEndpoints"
    using assms by (simp_all add: endpoints_ok_def maxEndpoints_def)
  then have "map (\<lambda>i. proxy_addr i (eps ! i)) [0..<length eps] = local_addrs eps"
    by (auto simp: local_addrs_def list_all_length intro!: proxy_addr_localAddr)
  then show ?thesis using distinct_binds [OF eps] assms by (simp add: endpoints_ok_def)
qed

section \<open>Properties\<close>

text \<open>
  C33: What \<open>config send\<close> delivers is what it read, at most 1 MiB, and \<open>config recv\<close> on the other
  end writes exactly these bytes to its stdout.
\<close>

theorem config_send_recv:
  assumes "configSend args stdin stdin_fails dial_ok ws = SendDone cid port sent"
    "length args' = 4" "ParseUint 32 (args' ! 3) \<noteq> None"
  shows "sent = stdin \<and> length sent \<le> 1048576 \<and> configRecv args' True True sent False True = RecvDone stdin"
proof -
  from assms(1) obtain bytes u where r: "readAllLimited stdin stdin_fails maxConfigBytes = Inr bytes"
    and s: "sendConfigVSOCK dial_ok ws bytes = (sent, Some u)"
    by (auto simp: configSend_def split: if_splits option.splits sum.splits prod.splits)
  have "sent = stdin" "length stdin \<le> maxConfigBytes"
    using sendConfigVSOCK_done [OF s] readAllLimited_Inr [OF r] by simp_all
  with assms(2,3) show ?thesis
    by (auto simp: configRecv_def readAllLimited_all maxConfigBytes_def)
qed

lemma or_up:
  fixes w :: uint16
  shows "(w OR 1) AND 1 = 1" "w AND 1 \<noteq> 0 \<Longrightarrow> w OR 1 = w \<and> w AND 1 = 1"
proof -
  show up: "(w OR 1) AND 1 = 1" by (rule bit_word_eqI) (auto simp: bit_simps)
  assume "w AND 1 \<noteq> 0"
  then have "bit w 0" by (simp add: and_one_eq odd_iff_mod_2_eq_one bit_0)
  then have "w OR 1 = w" by (intro bit_word_eqI) (auto simp: bit_simps)
  with up show "w OR 1 = w \<and> w AND 1 = 1" by simp
qed

text \<open>
  C37: \<open>ensureLoopbackUp\<close> succeeds only with the interface up and no other flag changed; when it
  fails the flags are as they were.
\<close>

theorem ensureLoopbackUp_correct:
  "case snd (ensureLoopbackUp calls flags) of
     Inl e \<Rightarrow> fst (ensureLoopbackUp calls flags) = flags
   | Inr u \<Rightarrow> fst (ensureLoopbackUp calls flags) = flags OR IFF_UP
       \<and> fst (ensureLoopbackUp calls flags) AND IFF_UP = IFF_UP"
  using or_up [of flags] by (auto simp: ensureLoopbackUp_def IFF_UP_def)

section \<open>Examples\<close>

lemma sample_send:
  "configSend [''argonaut'', ''config'', ''send'', ''16'', ''7777''] ''{}'' False True [(1, None), (1, None)] =
    SendDone 16 7777 ''{}''"
  by (simp add: configSend_def ParseUint_def all_digits_def is_digit_def dec_value_def digit_val_def
      readAllLimited_def maxConfigBytes_def sendConfigVSOCK_def Let_def)

theorem config_send_recv_example:
  "configRecv [''argonaut'', ''config'', ''recv'', ''7777''] True True ''{}'' False True = RecvDone ''{}''"
proof -
  have "ParseUint 32 ([''argonaut'', ''config'', ''recv'', ''7777''] ! 3) \<noteq> None"
    by (simp add: ParseUint_def all_digits_def is_digit_def dec_value_def digit_val_def)
  with config_send_recv [OF sample_send, of "[''argonaut'', ''config'', ''recv'', ''7777'']"] show ?thesis
    by simp
qed

end
