(* ===== verification/Argo_Samples.thy ===== *)
theory Argo_Samples
  imports Argo_Run
begin

text \<open>
  Runs of both modes on the document of a configuration, for the examples of the theorems about
  whole deployments.
\<close>

definition doc_text :: "Config \<Rightarrow> string" where
  "doc_text c = render (config_doc c) @ [lf]"

definition sample_settings :: settings where
  "sample_settings = load_settings (\<lambda>s. None) (\<lambda>nm. [])"

definition sample_loopback :: loopback_calls where
  "sample_loopback = \<lparr>socket_ok = True, ifreq_ok = True, get_flags_ok = True, set_flags_ok = True\<rparr>"

definition sample_args :: "string list" where
  "sample_args = [''argonaut'', ''host'', ''16'', ''config.json'']"

text \<open>A text that both modes accept as a configuration.\<close>

definition usable_text :: "string \<Rightarrow> Config \<Rightarrow> bool" where
  "usable_text raw c \<longleftrightarrow>
     raw \<noteq> [] \<and> length raw \<le> maxConfigBytes \<and> ParseConfig raw = Inr c
     \<and> ValidateConfig (Some c) validationModeHost = (Some c, Inr ())
     \<and> ValidateConfig (Some c) validationModeEnclave = (Some c, Inr ())"

lemma writeAll_once: "bs \<noteq> [] \<Longrightarrow> writeAll bs [(length bs, None)] = (bs, Some None)"
  by (cases bs) simp_all

lemma host_runs:
  assumes "usable_text raw c"
  shows "\<exists>pl. hostMode sample_settings sample_args [''config.json'' \<mapsto> raw] True
      [(length raw, None)] = HostRunning pl \<and> sent_config pl = raw"
proof -
  have "ParseUint 32 ''16'' = Some 16"
    by (simp add: ParseUint_def all_digits_def is_digit_def dec_value_def digit_val_def)
  then show ?thesis
    using assms by (simp add: hostMode_def sample_args_def usable_text_def sendConfigVSOCK_def writeAll_once)
qed

lemma enclave_runs:
  assumes "usable_text raw c"
  shows "\<exists>trace flags' ql. enclaveMode raw False sample_loopback 0 True (sample_outcomes True) Map.empty =
    (trace, flags', EnclaveRunning ql)"
proof -
  have c: "ParseConfig raw = Inr c" "ValidateConfig (Some c) validationModeEnclave = (Some c, Inr ())"
    using assms by (simp_all add: usable_text_def)
  then obtain eps where eps: "Endpoints c = Some eps" "endpoints_ok eps"
    using ValidateConfig_Inr [OF c] by blast
  have "readAllLimited raw False maxConfigBytes = Inr raw"
    using assms by (simp add: usable_text_def readAllLimited_all)
  moreover have "\<exists>trace. writeHosts True (sample_outcomes True) hostsPath eps Map.empty = (trace, Inr ())"
    using eps(2) by (simp add: writeHosts_def mergeHosts_ok endpoints_ok_def writeFileAtomic_def sample_outcomes_def Let_def)
  ultimately show ?thesis
    using c eps(1) by (auto simp: enclaveMode_def ensureLoopbackUp_def sample_loopback_def Let_def)
qed

lemma sample_temp: "fresh_temp (sample_outcomes True) hostsPath Map.empty"
  by (simp add: fresh_temp_def sample_outcomes_def)

lemma sample_usable: "usable_text (doc_text sample_config) (normalizeConfig sample_config)"
proof -
  have "ValidateConfig (Some (normalizeConfig sample_config)) m = (Some (normalizeConfig sample_config), Inr ())"
    if "m = validationModeHost \<or> m = validationModeEnclave" for m
    using that by (elim disjE; simp only:) code_simp+
  moreover have "ParseConfig (doc_text sample_config) = Inr (normalizeConfig sample_config)"
    using sample_config_length unfolding doc_text_def
    by (intro ParseConfig_document) (simp_all add: sample_config_wf json_space_def)
  ultimately show ?thesis using sample_config_length by (simp add: usable_text_def doc_text_def)
qed

text \<open>The configuration file that \<open>scripts/nitro-smoke.sh\<close> writes, with the defaults of its variables.\<close>

definition script_lines :: "string list" where
  \<open>script_lines =
     [''{'',
      ''  "schemaVersion": "v0.1",'',
      ''  "httpPort": 18080,'',
      ''  "httpVsockPort": 3000,'',
      ''  "httpTcpPort": 3000,'',
      ''  "endpoints": ['',
      ''    {'',
      ''      "host": "argonaut-smoke.local",'',
      ''      "vsockPort": 8100,'',
      ''      "tcpPort": 18443,'',
      ''      "localIP": "127.0.0.1",'',
      ''      "localPort": 9443'',
      ''    }'',
      ''  ]'',
      ''}'']\<close>

definition script_text :: string where
  "script_text = concat (map (\<lambda>l. l @ [lf]) script_lines)"

definition script_endpoint :: Endpoint where
  "script_endpoint =
     \<lparr>Host = ''argonaut-smoke.local'', VsockPort = 8100, TCPPort = 18443, LocalPort = 9443, LocalIP = ''127.0.0.1'',
      hostSet = True, vsockPortSet = True, tcpPortSet = True, localPortSet = True, localIPSet = True\<rparr>"

definition script_config :: Config where
  "script_config =
     \<lparr>SchemaVersion = ''v0.1'', HTTPPort = 18080, HTTPVsockPort = 3000, HTTPTCPPort = 3000,
      Endpoints = Some [script_endpoint], endpointsSet = True\<rparr>"

definition script_json :: json where
  "script_json =
     JObj [(''schemaVersion'', JStr ''v0.1''), (''httpPort'', JNum ''18080''), (''httpVsockPort'', JNum ''3000''),
       (''httpTcpPort'', JNum ''3000''),
       (''endpoints'', JArr [JObj [(''host'', JStr ''argonaut-smoke.local''), (''vsockPort'', JNum ''8100''),
          (''tcpPort'', JNum ''18443''), (''localIP'', JStr ''127.0.0.1''), (''localPort'', JNum ''9443'')]])]"

lemma script_decode: "Decode script_text = Some (script_json, [lf])"
  by (simp add: script_text_def script_lines_def script_json_def json_eval)

lemmas number_eval = ParseUint_def all_digits_def is_digit_def dec_value_def digit_val_def

lemma script_unmarshal: "Config_UnmarshalJSON script_json = Inr script_config"
  by (simp add: script_json_def Config_UnmarshalJSON_def config_member_def field_of_config_keys raw_member_Cons
      Endpoint_UnmarshalJSON_def endpoint_keys_def raw_field_def store_host_def store_vsockPort_def store_tcpPort_def
      store_localPort_def store_localIP_def number_eval zero_config_def zero_endpoint_def script_config_def
      script_endpoint_def)

lemma script_validates:
  assumes "m \<in> {validationModeHost, validationModeEnclave}"
  shows "ValidateConfig (Some script_config) m = (Some script_config, Inr ())"
proof -
  have "validateHostname ''argonaut-smoke.local'' = Inr ()" "ParseAddr4 ''127.0.0.1'' = Some (127, 0, 0, 1)" by code_simp+
  then have "ValidateEndpoint script_endpoint = Inr ()"
    by (simp add: ValidateEndpoint_def script_endpoint_def IsLoopback_def)
  moreover have "normalizeConfig script_config = script_config" by code_simp
  ultimately show ?thesis
    using assms by (auto simp: ValidateConfig_def check_config_def script_config_def check_mode_def claim_key_def
        schemaVersionV01_def maxEndpoints_def validationModeHost_def validationModeEnclave_def)
qed

lemma script_usable: "usable_text script_text script_config"
proof -
  have bytes: "script_text \<noteq> []" "length script_text \<le> maxConfigBytes"
    by (simp_all add: script_text_def script_lines_def maxConfigBytes_def)
  moreover have "normalizeConfig script_config = script_config" by code_simp
  with bytes have "ParseConfig script_text = Inr script_config"
    by (simp add: ParseConfig_def script_decode script_unmarshal ensureNoTrailingJSON_def at_eof_def json_space_def)
  ultimately show ?thesis by (simp add: usable_text_def script_validates)
qed

end
