(* ===== verification/Argo_Start.thy ===== *)
theory Argo_Start
  imports Argo_Samples "HOL-Library.Multiset"
begin

text \<open>
  \<open>main.go\<close>, the start of the bridges: the four functions open their listeners before they accept,
  and the process exits if one of them cannot. The lists \<open>tcp\<close> and \<open>vsock\<close> hold the addresses that
  cannot be bound; every listener adds its own to them.
\<close>

section \<open>Listeners\<close>

text \<open>A listener of one bridge: the bridge before its first connection and the addresses in use then.\<close>

definition bind_bridge :: "settings \<Rightarrow> 'a \<Rightarrow> 'a list \<Rightarrow> (bridge \<times> 'a list) option" where
  "bind_bridge cfg addr used = map_option (\<lambda>b. (b, addr # used)) (open_bridge cfg (addr \<notin> set used))"

definition hostInboundBridge_open :: "settings \<Rightarrow> uint16 \<Rightarrow> string list \<Rightarrow> (bridge \<times> string list) option" where
  "hostInboundBridge_open cfg tcpPort =
     bind_bridge cfg (JoinHostPort (configuredHostHTTPBindAddr cfg) (Itoa (unat tcpPort)))"

definition hostOutboundBridge_open :: "settings \<Rightarrow> Endpoint \<Rightarrow> uint32 list \<Rightarrow> (bridge \<times> uint32 list) option" where
  "hostOutboundBridge_open cfg ep = bind_bridge cfg (VsockPort ep)"

definition inboundBridge_open :: "settings \<Rightarrow> uint32 \<Rightarrow> uint32 list \<Rightarrow> (bridge \<times> uint32 list) option" where
  "inboundBridge_open cfg vsockPort = bind_bridge cfg vsockPort"

definition outboundProxy_open :: "settings \<Rightarrow> string \<Rightarrow> Endpoint \<Rightarrow> string list \<Rightarrow> (bridge \<times> string list) option" where
  "outboundProxy_open cfg localIP ep = bind_bridge cfg (JoinHostPort localIP (Itoa (unat (LocalPort ep))))"

section \<open>All bridges of a mode\<close>

fun open_all :: "('a list \<Rightarrow> (bridge \<times> 'a list) option) list \<Rightarrow> 'a list \<Rightarrow> bridge list option" where
  "open_all [] used = Some []"
| "open_all (opening # openings) used =
     (case opening used of
        None \<Rightarrow> None
      | Some (b, used') \<Rightarrow> map_option ((#) b) (open_all openings used'))"

text \<open>The goroutines that the two modes start; \<open>None\<close> if the process exits.\<close>

definition host_bridges :: "settings \<Rightarrow> Config \<Rightarrow> string list \<Rightarrow> uint32 list \<Rightarrow> (bridge \<times> bridge list) option" where
  "host_bridges cfg hostCfg tcp vsock =
     (case hostInboundBridge_open cfg (HTTPPort hostCfg) tcp of
        None \<Rightarrow> None
      | Some (b, _) \<Rightarrow>
          map_option (Pair b)
            (open_all (map (hostOutboundBridge_open cfg) (case Endpoints hostCfg of None \<Rightarrow> [] | Some eps \<Rightarrow> eps)) vsock))"

definition enclave_bridges :: "settings \<Rightarrow> Config \<Rightarrow> string list \<Rightarrow> uint32 list \<Rightarrow> (bridge \<times> bridge list) option" where
  "enclave_bridges cfg config tcp vsock =
     (let eps = (case Endpoints config of None \<Rightarrow> [] | Some eps \<Rightarrow> eps)
      in (case inboundBridge_open cfg (HTTPVsockPort config) vsock of
            None \<Rightarrow> None
          | Some (b, _) \<Rightarrow>
              map_option (Pair b)
                (open_all
                  (map (\<lambda>i. outboundProxy_open cfg (endpointLocalIP (eps ! i) i) (eps ! i)) [0..<length eps]) tcp)))"

section \<open>When all of them open\<close>

text \<open>Listeners on different free addresses all open, whatever the order of the goroutines.\<close>

lemma open_all_iff:
  "open_all (map (bind_bridge cfg) addrs) used =
     (if distinct addrs \<and> set addrs \<inter> set used = {}
      then Some (replicate (length addrs) (new_bridge (nat (configuredConnectionLimit cfg)))) else None)"
  by (induction addrs arbitrary: used) (auto simp: bind_bridge_def open_bridge_def)

lemma open_all_order:
  assumes "mset addrs = mset addrs'"
  shows "open_all (map (bind_bridge cfg) addrs) used = open_all (map (bind_bridge cfg) addrs') used"
  using mset_eq_setD [OF assms] mset_eq_length [OF assms] mset_eq_imp_distinct_iff [OF assms]
  by (simp add: open_all_iff)

lemma validated_config:
  assumes "ValidateConfig (Some c) md = (Some c', Inr u)" "Endpoints c' = Some eps"
  shows "endpoints_ok eps"
  using assms check_config_ok [of "normalizeConfig c" md] by (auto simp: ValidateConfig_def config_ok_def)

lemma open_listeners:
  "map (hostOutboundBridge_open cfg) eps = map (bind_bridge cfg) (map VsockPort eps)"
  "map (\<lambda>i. outboundProxy_open cfg (endpointLocalIP (eps ! i) i) (eps ! i)) [0..<length eps] =
     map (bind_bridge cfg) (map (\<lambda>i. proxy_addr i (eps ! i)) [0..<length eps])"
  by (simp_all add: hostOutboundBridge_open_def [abs_def] outboundProxy_open_def proxy_addr_def comp_def)

section \<open>Properties\<close>

text \<open>
  C12: The bridges of a validated configuration never collide with each other: on the host as in the
  enclave they all start, each with its limiter empty and of the configured size, exactly if none
  of their addresses is in use by something else.
\<close>

theorem bridges_start:
  assumes "ValidateConfig (Some c) md = (Some c', Inr u)" "Endpoints c' = Some eps"
  shows "let fresh = new_bridge (nat (configuredConnectionLimit cfg));
             started = Some (fresh, replicate (length eps) fresh)
         in host_bridges cfg c' tcp vsock =
              (if JoinHostPort (configuredHostHTTPBindAddr cfg) (Itoa (unat (HTTPPort c'))) \<notin> set tcp
                  \<and> VsockPort ` set eps \<inter> set vsock = {} then started else None)
          \<and> enclave_bridges cfg c' tcp vsock =
              (if HTTPVsockPort c' \<notin> set vsock
                  \<and> {proxy_addr i (eps ! i) | i. i < length eps} \<inter> set tcp = {} then started else None)"
proof -
  have ok: "endpoints_ok eps" by (rule validated_config [OF assms])
  then have "distinct (map VsockPort eps)" by (simp add: endpoints_ok_def)
  then have "open_all (map (hostOutboundBridge_open cfg) eps) vsock =
      (if VsockPort ` set eps \<inter> set vsock = {}
       then Some (replicate (length eps) (new_bridge (nat (configuredConnectionLimit cfg)))) else None)"
    unfolding open_listeners open_all_iff by simp
  moreover have "{proxy_addr i (eps ! i) | i. i < length eps} =
      set (map (\<lambda>i. proxy_addr i (eps ! i)) [0..<length eps])"
    by auto
  then have "open_all (map (\<lambda>i. outboundProxy_open cfg (endpointLocalIP (eps ! i) i) (eps ! i)) [0..<length eps]) tcp =
      (if {proxy_addr i (eps ! i) | i. i < length eps} \<inter> set tcp = {}
       then Some (replicate (length eps) (new_bridge (nat (configuredConnectionLimit cfg)))) else None)"
    using proxies_distinct [OF ok] unfolding open_listeners open_all_iff by simp
  ultimately show ?thesis
    using assms(2)
    by (simp add: host_bridges_def enclave_bridges_def hostInboundBridge_open_def
        inboundBridge_open_def bind_bridge_def open_bridge_def Let_def)
qed

text \<open>A free host and enclave on which the configuration of the smoke test starts.\<close>

theorem bridges_start_example:
  "\<exists>bs. host_bridges sample_settings script_config [] [] = Some bs
    \<and> enclave_bridges sample_settings script_config [] [] = Some bs \<and> length (snd bs) = 1"
proof -
  have v: "ValidateConfig (Some script_config) validationModeHost = (Some script_config, Inr ())"
    by (simp add: script_validates)
  have e: "Endpoints script_config = Some [script_endpoint]" by (simp add: script_config_def)
  show ?thesis using bridges_start [OF v e, of sample_settings "[]" "[]"] by (simp add: Let_def)
qed

end
