(* ===== verification/Smoke_Config.thy ===== *)
theory Smoke_Config
  imports Argo_Hosts
begin

text \<open>
  \<open>scripts/nitro-smoke/enclave-runner/main.go\<close>, configuration: the runner's own, smaller view of the
  configuration file, decoded with \<open>json.Unmarshal\<close> into its own structs, and its defaults. The
  lemmas show that it sees the same endpoint as \<open>ParseConfig\<close>.
\<close>

section \<open>Data\<close>

record smokeEndpoint =
  smoke_Host :: string
  smoke_LocalIP :: string
  smoke_LocalPort :: uint16

definition zero_smokeEndpoint :: smokeEndpoint where
  "zero_smokeEndpoint = \<lparr>smoke_Host = [], smoke_LocalIP = [], smoke_LocalPort = 0\<rparr>"

record smokeConfig =
  smoke_Endpoints :: "smokeEndpoint list option"

section \<open>Decoding\<close>

definition smoke_endpoint_keys :: "string list" where
  "smoke_endpoint_keys = [''host'', ''localIP'', ''localPort'']"

text \<open>
  A member of an element: unknown keys are skipped, a wrong type makes \<open>json.Unmarshal\<close> fail in the
  end (\<open>None\<close>).
\<close>

definition smoke_endpoint_member :: "string \<times> json \<Rightarrow> smokeEndpoint \<Rightarrow> smokeEndpoint option" where
  "smoke_endpoint_member m ep =
     (case m of (key, v) \<Rightarrow>
        (case field_of smoke_endpoint_keys key of
           None \<Rightarrow> Some ep
         | Some f \<Rightarrow>
             if f = ''host'' then map_option (\<lambda>s. ep\<lparr>smoke_Host := s\<rparr>) (unmarshal_string v (smoke_Host ep))
             else if f = ''localIP'' then
               map_option (\<lambda>s. ep\<lparr>smoke_LocalIP := s\<rparr>) (unmarshal_string v (smoke_LocalIP ep))
             else map_option (\<lambda>p. ep\<lparr>smoke_LocalPort := p\<rparr>) (unmarshal_uint v (smoke_LocalPort ep))))"

fun smoke_endpoint_members :: "(string \<times> json) list \<Rightarrow> smokeEndpoint \<Rightarrow> smokeEndpoint option" where
  "smoke_endpoint_members [] ep = Some ep"
| "smoke_endpoint_members (m # ms) ep = Option.bind (smoke_endpoint_member m ep) (smoke_endpoint_members ms)"

fun unmarshal_smokeEndpoint :: "json \<Rightarrow> smokeEndpoint \<Rightarrow> smokeEndpoint option" where
  "unmarshal_smokeEndpoint JNull ep = Some ep"
| "unmarshal_smokeEndpoint (JObj ms) ep = smoke_endpoint_members ms ep"
| "unmarshal_smokeEndpoint _ ep = None"

text \<open>The elements go into the backing array of the slice, as for \<open>[]Endpoint\<close> in \<open>config.go\<close>.\<close>

fun smoke_elements :: "json list \<Rightarrow> smokeEndpoint list \<Rightarrow> smokeEndpoint list option" where
  "smoke_elements [] backing = Some backing"
| "smoke_elements (v # vs) [] =
     Option.bind (unmarshal_smokeEndpoint v zero_smokeEndpoint) (\<lambda>e. map_option ((#) e) (smoke_elements vs []))"
| "smoke_elements (v # vs) (b # bs) =
     Option.bind (unmarshal_smokeEndpoint v b) (\<lambda>e. map_option ((#) e) (smoke_elements vs bs))"

fun smoke_slice :: "json \<Rightarrow> smokeEndpoint list \<Rightarrow> (smokeEndpoint list option \<times> smokeEndpoint list) option" where
  "smoke_slice JNull backing = Some (None, [])"
| "smoke_slice (JArr vs) backing =
     (if vs = [] then Some (Some [], [])
      else map_option (\<lambda>es. (Some (take (length vs) es), es)) (smoke_elements vs backing))"
| "smoke_slice _ backing = None"

text \<open>The members of the top-level object: all but \<open>endpoints\<close> are skipped.\<close>

fun smoke_config_members ::
  "(string \<times> json) list \<Rightarrow> smokeConfig \<times> smokeEndpoint list \<Rightarrow> (smokeConfig \<times> smokeEndpoint list) option" where
  "smoke_config_members [] st = Some st"
| "smoke_config_members ((key, v) # ms) (cfg, backing) =
     (if field_of [''endpoints''] key = None then smoke_config_members ms (cfg, backing)
      else Option.bind (smoke_slice v backing) (\<lambda>(eps, backing').
             smoke_config_members ms (cfg\<lparr>smoke_Endpoints := eps\<rparr>, backing')))"

fun unmarshal_smokeConfig :: "json \<Rightarrow> smokeConfig option" where
  "unmarshal_smokeConfig JNull = Some \<lparr>smoke_Endpoints = None\<rparr>"
| "unmarshal_smokeConfig (JObj ms) = map_option fst (smoke_config_members ms (\<lparr>smoke_Endpoints = None\<rparr>, []))"
| "unmarshal_smokeConfig _ = None"

section \<open>The endpoint under test\<close>

datatype smoke_config_error = SmokeJSONInvalid | SmokeEndpointCount nat | SmokeHostEmpty

definition parseSmokeEndpoint :: "string \<Rightarrow> smoke_config_error + smokeEndpoint" where
  "parseSmokeEndpoint config =
     (case Option.bind (parse_json config) unmarshal_smokeConfig of
        None \<Rightarrow> Inl SmokeJSONInvalid
      | Some cfg \<Rightarrow>
          (case (case smoke_Endpoints cfg of None \<Rightarrow> [] | Some eps \<Rightarrow> eps) of
             [ep] \<Rightarrow>
               if smoke_Host ep = [] then Inl SmokeHostEmpty
               else
                 let ep = (if smoke_LocalIP ep = [] then ep\<lparr>smoke_LocalIP := ''127.0.0.64''\<rparr> else ep)
                 in Inr (if smoke_LocalPort ep = 0 then ep\<lparr>smoke_LocalPort := 443\<rparr> else ep)
           | eps \<Rightarrow> Inl (SmokeEndpointCount (length eps))))"

definition outboundAddr :: "smokeEndpoint \<Rightarrow> string" where
  "outboundAddr ep = JoinHostPort (smoke_LocalIP ep) (Itoa (unat (smoke_LocalPort ep)))"

section \<open>Agreement with the configuration of the program\<close>

lemma smoke_keys [simp]:
  "field_of smoke_endpoint_keys ''host'' = Some ''host''" "field_of smoke_endpoint_keys ''localIP'' = Some ''localIP''"
  "field_of smoke_endpoint_keys ''localPort'' = Some ''localPort''"
  "field_of smoke_endpoint_keys ''vsockPort'' = None" "field_of smoke_endpoint_keys ''tcpPort'' = None"
  by code_simp+

lemma smoke_top_keys [simp]:
  "field_of [''endpoints''] ''endpoints'' = Some ''endpoints''" "field_of [''endpoints''] ''schemaVersion'' = None"
  "field_of [''endpoints''] ''httpPort'' = None" "field_of [''endpoints''] ''httpVsockPort'' = None"
  "field_of [''endpoints''] ''httpTcpPort'' = None"
  by code_simp+

lemma normalize_endpoint_fields [simp]:
  "Host (normalize_endpoint ep) = Host ep" "LocalIP (normalize_endpoint ep) = LocalIP ep"
  "VsockPort (normalize_endpoint ep) = VsockPort ep" "localPortSet (normalize_endpoint ep) = localPortSet ep"
  "LocalPort (normalize_endpoint ep) = (if localPortSet ep then LocalPort ep else 443)"
  "endpointLocalIP (normalize_endpoint ep) i = endpointLocalIP ep i"
  by (simp_all add: normalize_endpoint_def Let_def defaultTCPPort_def endpointLocalIP_def)

text \<open>
  Both programs read the same fields from the object of an endpoint if its keys are not repeated (a
  repeated key is decoded twice by the runner and once, the last time, by the program).
\<close>

definition upd_string :: "json option \<Rightarrow> string \<Rightarrow> string option" where
  "upd_string v old = (case v of None \<Rightarrow> Some old | Some v \<Rightarrow> unmarshal_string v old)"

definition upd_uint :: "json option \<Rightarrow> uint16 \<Rightarrow> uint16 option" where
  "upd_uint v old = (case v of None \<Rightarrow> Some old | Some v \<Rightarrow> unmarshal_uint v old)"

lemma upd_simps [simp]:
  "upd_string None old = Some old" "upd_string (Some v) old = unmarshal_string v old"
  "upd_uint None p = Some p" "upd_uint (Some v) p = unmarshal_uint v p"
  by (simp_all add: upd_string_def upd_uint_def)

lemma smoke_members_fields:
  assumes "distinct (map fst ms)" "list_all (\<lambda>m. fst m \<in> set endpoint_keys) ms"
    "upd_string (map_of ms ''host'') (smoke_Host ep) = Some h" "upd_string (map_of ms ''localIP'') (smoke_LocalIP ep) = Some ip"
    "upd_uint (map_of ms ''localPort'') (smoke_LocalPort ep) = Some p"
  shows "smoke_endpoint_members ms ep = Some \<lparr>smoke_Host = h, smoke_LocalIP = ip, smoke_LocalPort = p\<rparr>"
  using assms
proof (induction ms arbitrary: ep)
  case (Cons m ms)
  obtain k v where m: "m = (k, v)" by force
  then have new: "map_of ms k = None" using Cons.prems(1) by (auto simp: map_of_eq_None_iff)
  have "k \<in> {''host'', ''vsockPort'', ''tcpPort'', ''localPort'', ''localIP''}"
    using Cons.prems(2) m by (auto simp: endpoint_keys_def)
  with new Cons.prems(3-5) obtain ep1 where step: "smoke_endpoint_member m ep = Some ep1"
    "upd_string (map_of ms ''host'') (smoke_Host ep1) = Some h" "upd_string (map_of ms ''localIP'') (smoke_LocalIP ep1) = Some ip"
    "upd_uint (map_of ms ''localPort'') (smoke_LocalPort ep1) = Some p"
    by (auto simp: m smoke_endpoint_member_def)
  from Cons.IH [OF _ _ step(2-4)] Cons.prems(1,2) step(1) show ?case by simp
qed simp

lemma Endpoint_UnmarshalJSON_fields:
  assumes "Endpoint_UnmarshalJSON (JObj ms) zero_endpoint = Inr e"
  shows "list_all (\<lambda>m. fst m \<in> set endpoint_keys) ms
    \<and> upd_string (raw_member ms ''host'') [] = Some (Host e)
    \<and> upd_string (raw_member ms ''localIP'') [] = Some (LocalIP e)
    \<and> upd_uint (raw_member ms ''localPort'') 0 = Some (LocalPort e)
    \<and> (\<not> localPortSet e \<longrightarrow> LocalPort e = 0)"
proof -
  let ?raw = "raw_member ms"
  from assms obtain e1 e2 e3 e4 where f:
    "raw_field ?raw ''host'' store_host zero_endpoint = Inr e1" "raw_field ?raw ''vsockPort'' store_vsockPort e1 = Inr e2"
    "raw_field ?raw ''tcpPort'' store_tcpPort e2 = Inr e3" "raw_field ?raw ''localPort'' store_localPort e3 = Inr e4"
    "raw_field ?raw ''localIP'' store_localIP e4 = Inr e" and keys: "list_all (\<lambda>m. fst m \<in> set endpoint_keys) ms"
    by (auto simp: Endpoint_UnmarshalJSON_def Let_def result_iff simp del: raw_field_simps)
  note steps = raw_field_step(1) [OF f(1)] raw_field_step(2) [OF f(2)] raw_field_step(3) [OF f(3)]
    raw_field_step(4) [OF f(4)] raw_field_step(5) [OF f(5)]
  have "upd_string (?raw ''host'') [] = Some (Host e1)"
    using f(1) by (auto simp: raw_field_def store_host_def upd_string_def zero_endpoint_def from_option_def split: option.splits)
  moreover have "upd_uint (?raw ''localPort'') (LocalPort e3) = Some (LocalPort e4)"
    "\<not> localPortSet e4 \<longrightarrow> LocalPort e4 = LocalPort e3"
    using f(4) by (auto simp: raw_field_def store_localPort_def upd_uint_def from_option_def split: option.splits)
  moreover have "upd_string (?raw ''localIP'') (LocalIP e4) = Some (LocalIP e)"
    using f(5) by (auto simp: raw_field_def store_localIP_def upd_string_def from_option_def split: option.splits)
  ultimately show ?thesis using keys steps by (simp add: zero_endpoint_def)
qed

text \<open>A document whose only endpoints member is an array with one object, whose keys are not repeated.\<close>

fun lone_object :: "json \<Rightarrow> (string \<times> json) list option" where
  "lone_object (JArr [JObj es]) = Some es"
| "lone_object _ = None"

lemma lone_object_iff: "lone_object v = Some es \<longleftrightarrow> v = JArr [JObj es]"
  by (cases v rule: lone_object.cases) auto

definition lone_endpoint_doc :: "string \<Rightarrow> bool" where
  "lone_endpoint_doc raw \<longleftrightarrow>
     (case parse_json raw of
        Some (JObj ms) \<Rightarrow>
          (case filter (\<lambda>m. field_of [''endpoints''] (fst m) \<noteq> None) ms of
             [m] \<Rightarrow> (case lone_object (snd m) of None \<Rightarrow> False | Some es \<Rightarrow> distinct (map fst es))
           | _ \<Rightarrow> False)
      | _ \<Rightarrow> False)"

lemma same_endpoints_key: "field_of config_keys key = Some ''endpoints'' \<longleftrightarrow> field_of [''endpoints''] key \<noteq> None"
proof -
  have "distinct (map foldName config_keys)" by code_simp
  then show ?thesis by (auto simp: field_of_def config_keys_def)
qed

lemma smoke_skips:
  "no_endpoints ms \<Longrightarrow> smoke_config_members (ms @ later) st = smoke_config_members later st"
  by (induction ms; cases st) (auto simp: no_endpoints_def same_endpoints_key)

lemma lone_endpoint_members:
  assumes "lone_endpoint_doc raw"
  obtains ms xs k es ys where "parse_json raw = Some (JObj ms)" "ms = xs @ (k, JArr [JObj es]) # ys"
    "no_endpoints xs" "no_endpoints ys" "field_of config_keys k = Some ''endpoints''" "distinct (map fst es)"
proof -
  from assms obtain ms k es where doc: "parse_json raw = Some (JObj ms)" "distinct (map fst es)"
    and f: "filter (\<lambda>m. field_of [''endpoints''] (fst m) \<noteq> None) ms = [(k, JArr [JObj es])]"
    by (auto simp: lone_endpoint_doc_def lone_object_iff split: option.splits json.splits list.splits)
  from f obtain xs ys where "ms = xs @ (k, JArr [JObj es]) # ys" "\<forall>m \<in> set xs. field_of [''endpoints''] (fst m) = None"
    "field_of [''endpoints''] k \<noteq> None" "filter (\<lambda>m. field_of [''endpoints''] (fst m) \<noteq> None) ys = []"
    by (auto simp: filter_eq_Cons_iff)
  then show ?thesis
    using that doc by (auto simp: no_endpoints_def list_all_iff same_endpoints_key filter_empty_conv)
qed

text \<open>The endpoint under test is the one that the program uses, with the same defaults.\<close>

lemma parseSmokeEndpoint_agrees:
  assumes "lone_endpoint_doc raw" "ParseConfig raw = Inr parsed" "Endpoints parsed = Some eps" "list_all endpoint_ok eps"
  obtains ep where "eps = [ep]"
    "parseSmokeEndpoint raw =
      Inr \<lparr>smoke_Host = Host ep, smoke_LocalIP = endpointLocalIP ep 0, smoke_LocalPort = LocalPort ep\<rparr>"
proof -
  obtain ms xs k es ys where doc: "parse_json raw = Some (JObj ms)" "ms = xs @ (k, JArr [JObj es]) # ys"
    "no_endpoints xs" "no_endpoints ys" "field_of config_keys k = Some ''endpoints''" "distinct (map fst es)"
    by (rule lone_endpoint_members [OF assms(1)])
  from assms(2) doc(1) obtain c where c: "Config_UnmarshalJSON (JObj ms) = Inr c" "parsed = normalizeConfig c"
    by (auto simp: ParseConfig_def parse_json_def ensureNoTrailingJSON_def split: if_splits option.splits sum.splits prod.splits)
  from c(1) obtain c' b' where "config_members ms (zero_config, []) = Inr (c', b')" "Endpoints c' = Endpoints c"
    by (auto simp: Config_UnmarshalJSON_def result_iff)
  then obtain c1 b1 c2 b2 where m: "config_members xs (zero_config, []) = Inr (c1, b1)"
    "config_member (k, JArr [JObj es]) (c1, b1) = Inr (c2, b2)" "config_members ys (c2, b2) = Inr (c', b')"
    "Endpoints c' = Endpoints c"
    by (auto simp: doc(2) config_members_append result_iff)
  have "b1 = []" "Endpoints c2 = Endpoints c"
    using no_endpoints_keeps [OF doc(3) m(1)] no_endpoints_keeps [OF doc(4) m(3)] m(4) by simp_all
  with m(2) doc(5) obtain e where e: "Endpoint_UnmarshalJSON (JObj es) zero_endpoint = Inr e" "Endpoints c = Some [e]"
    by (auto simp: config_member_def result_iff)
  note fields = Endpoint_UnmarshalJSON_fields [OF e(1)]
  have "unmarshal_smokeEndpoint (JObj es) zero_smokeEndpoint =
      Some \<lparr>smoke_Host = Host e, smoke_LocalIP = LocalIP e, smoke_LocalPort = LocalPort e\<rparr>"
    using smoke_members_fields [OF doc(6), of zero_smokeEndpoint] fields
    by (simp add: raw_member_distinct [OF doc(6)] zero_smokeEndpoint_def)
  then have view: "unmarshal_smokeConfig (JObj ms) =
      Some \<lparr>smoke_Endpoints = Some [\<lparr>smoke_Host = Host e, smoke_LocalIP = LocalIP e, smoke_LocalPort = LocalPort e\<rparr>]\<rparr>"
    using doc(5) smoke_skips [OF doc(4), of "[]"] by (simp add: doc(2) smoke_skips [OF doc(3)] same_endpoints_key)
  let ?ep = "normalize_endpoint e"
  have eps: "eps = [?ep]" using assms(3) c(2) e(2) by (simp add: normalizeConfig_endpoints)
  then have ok: "endpoint_ok ?ep" using assms(4) by simp
  then have "Host e \<noteq> []" "localPortSet e \<longrightarrow> LocalPort e \<noteq> 0"
    using host_chars [OF ok] by (auto simp: endpoint_ok_def port_ok_16)
  moreover have "Itoa 64 = ''64''" by code_simp
  ultimately have "parseSmokeEndpoint raw =
      Inr \<lparr>smoke_Host = Host ?ep, smoke_LocalIP = endpointLocalIP ?ep 0, smoke_LocalPort = LocalPort ?ep\<rparr>"
    using view fields
    by (auto simp: parseSmokeEndpoint_def doc(1) endpointLocalIP_def Let_def simp del: unmarshal_smokeConfig.simps)
  with eps that show ?thesis by blast
qed

end
