(* ===== verification/Nsm_Device.thy ===== *)
theory Nsm_Device
  imports Argo_Prelude Go_Text
begin

text \<open>
  \<open>nsm.go\<close>, device side: \<open>NitroBackend\<close>, the ioctl on \<open>/dev/nsm\<close> and the CBOR messages. The
  CBOR package (github.com/fxamacker/cbor) is the parameter \<open>cbor\<close>, the kernel the parameter
  \<open>kernel\<close>, with a state of its own that every ioctl may change. A Go error is its text, because
  the protocol decides by the text what it tells the client. A \<open>[]byte\<close> that may be nil is an
  option.
\<close>

section \<open>Parameters\<close>

text \<open>
  The Go values that are marshalled, and the four calls of the CBOR package: \<open>Marshal\<close>, and
  \<open>Unmarshal\<close> into \<open>map[string]cbor.RawMessage\<close> (its entries have distinct keys), \<open>[]byte\<close> and
  \<open>string\<close>.
\<close>

datatype cbor_value = CNull | CText string | CBytes "byte list" | CMap "(string \<times> cbor_value) list"

record cbor =
  Marshal :: "cbor_value \<Rightarrow> string + byte list"
  UnmarshalMap :: "byte list \<Rightarrow> string + (string \<times> byte list) list"
  UnmarshalBytes :: "byte list \<Rightarrow> string + byte list"
  UnmarshalText :: "byte list \<Rightarrow> string + string"

text \<open>
  The message of the ioctl: two \<open>iovec\<close>s. The pointer of one stands for the buffer it points to.
\<close>

record iovec =
  Base :: "byte list"
  Len :: uint64

record nsmMessage =
  Request :: iovec
  Response :: iovec

text \<open>
  What an ioctl does: the errno, the bytes it wrote to the response buffer and the response
  length it stored in the message.
\<close>

record ioctl_reply =
  errno :: nat
  written :: "byte list"
  response_len :: uint64

record 'k kernel =
  open_device :: "string \<Rightarrow> 'k \<Rightarrow> (string + nat) \<times> 'k"
  close_fd :: "nat \<Rightarrow> 'k \<Rightarrow> 'k"
  ioctl :: "nat \<Rightarrow> uint32 \<Rightarrow> nsmMessage \<Rightarrow> 'k \<Rightarrow> ioctl_reply \<times> 'k"
  errno_text :: "nat \<Rightarrow> string"

section \<open>Requests and responses\<close>

record AttestationRequest =
  PublicKey :: "byte list option"
  Nonce :: "byte list option"
  UserData :: "byte list option"

datatype nsmResponse =
    AttestationDocument "byte list"
  | RandomBytes "byte list"
  | DeviceError string

definition nsmRequestMaxSize :: nat where
  "nsmRequestMaxSize = 4096"

definition nsmResponseMaxSize :: nat where
  "nsmResponseMaxSize = 12288"

definition nsmFieldMaxSize :: nat where
  "nsmFieldMaxSize = 2048"

definition EMSGSIZE :: nat where
  "EMSGSIZE = 90"

text \<open>\<open>len\<close> of a slice that may be nil.\<close>

definition slice_len :: "byte list option \<Rightarrow> nat" where
  "slice_len s = (case s of None \<Rightarrow> 0 | Some bs \<Rightarrow> length bs)"

definition validateAttestationRequest :: "AttestationRequest \<Rightarrow> string + unit" where
  "validateAttestationRequest req =
     rbind (require (slice_len (PublicKey req) \<noteq> 0) ''missing_public_key'') (\<lambda>_.
     rbind (require (slice_len (PublicKey req) \<le> nsmFieldMaxSize) ''public_key_too_large'') (\<lambda>_.
     rbind (require (slice_len (Nonce req) \<le> nsmFieldMaxSize) ''nonce_too_large'') (\<lambda>_.
     require (slice_len (UserData req) \<le> nsmFieldMaxSize) ''user_data_too_large'')))"

definition cbor_slice :: "byte list option \<Rightarrow> cbor_value" where
  "cbor_slice s = (case s of None \<Rightarrow> CNull | Some bs \<Rightarrow> CBytes bs)"

definition encodeAttestationRequest :: "cbor \<Rightarrow> AttestationRequest \<Rightarrow> string + byte list" where
  "encodeAttestationRequest cb req =
     rbind (validateAttestationRequest req) (\<lambda>_.
     Marshal cb
       (CMap [(''Attestation'',
          CMap [(''user_data'', cbor_slice (UserData req)), (''nonce'', cbor_slice (Nonce req)),
                (''public_key'', cbor_slice (PublicKey req))])]))"

definition encodeGetRandomRequest :: "cbor \<Rightarrow> string + byte list" where
  "encodeGetRandomRequest cb = Marshal cb (CText ''GetRandom'')"

text \<open>
  One variant of the response: the map under the key, its member, the bytes, none of it empty.
\<close>

definition decode_bytes_field :: "cbor \<Rightarrow> string \<Rightarrow> string \<Rightarrow> string \<Rightarrow> byte list \<Rightarrow> string + byte list" where
  "decode_bytes_field cb what bytes_what field raw =
     rbind (map_err (\<lambda>e. ''decode '' @ what @ '': '' @ e) (UnmarshalMap cb raw)) (\<lambda>inner.
     rbind (from_option (''decode '' @ what @ '': missing '' @ field) (map_of inner field)) (\<lambda>raw_field.
     rbind (map_err (\<lambda>e. ''decode '' @ bytes_what @ '': '' @ e) (UnmarshalBytes cb raw_field)) (\<lambda>bs.
     if bs = [] then Inl (''decode '' @ what @ '': empty '' @ field) else Inr bs)))"

definition decodeNsmResponse :: "cbor \<Rightarrow> byte list \<Rightarrow> string + nsmResponse" where
  "decodeNsmResponse cb resp =
     rbind (map_err (\<lambda>e. ''decode response: '' @ e) (UnmarshalMap cb resp)) (\<lambda>m.
     (case m of
        [] \<Rightarrow> Inl ''unknown response shape''
      | [(key, raw)] \<Rightarrow>
          (if key = ''Attestation'' then
             rbind (decode_bytes_field cb ''attestation'' ''attestation document'' ''document'' raw)
               (\<lambda>document. Inr (AttestationDocument document))
           else if key = ''GetRandom'' then
             rbind (decode_bytes_field cb ''random'' ''random bytes'' ''random'' raw)
               (\<lambda>random. Inr (RandomBytes random))
           else if key = ''Error'' then
             rbind (map_err (\<lambda>e. ''decode error: '' @ e) (UnmarshalText cb raw)) (\<lambda>code.
             if code = [] then Inl ''decode error: empty error code'' else Inr (DeviceError code))
           else Inl ''unknown response shape'')
      | _ \<Rightarrow> Inl ''ambiguous response shape''))"

definition decodeAttestationResponse :: "cbor \<Rightarrow> byte list \<Rightarrow> string + byte list" where
  "decodeAttestationResponse cb resp =
     rbind (decodeNsmResponse cb resp) (\<lambda>r.
     (case r of
        DeviceError code \<Rightarrow> Inl (''nsm error: '' @ code)
      | RandomBytes _ \<Rightarrow> Inl (''unexpected response variant: '' @ ''GetRandom'')
      | AttestationDocument document \<Rightarrow> Inr document))"

definition decodeGetRandomResponse :: "cbor \<Rightarrow> byte list \<Rightarrow> string + byte list" where
  "decodeGetRandomResponse cb resp =
     rbind (decodeNsmResponse cb resp) (\<lambda>r.
     (case r of
        DeviceError code \<Rightarrow> Inl (''nsm error: '' @ code)
      | AttestationDocument _ \<Rightarrow> Inl (''unexpected response variant: '' @ ''Attestation'')
      | RandomBytes random \<Rightarrow> Inr random))"

section \<open>The device\<close>

definition nsmDevicePath :: string where
  "nsmDevicePath = ''/dev/nsm''"

definition OpenNsm :: "'k kernel \<Rightarrow> 'k \<Rightarrow> (string + nat) \<times> 'k" where
  "OpenNsm k st =
     (case open_device k nsmDevicePath st of
        (Inl e, st') \<Rightarrow> (Inl (''open '' @ nsmDevicePath @ '': '' @ e), st')
      | (Inr fd, st') \<Rightarrow> (Inr fd, st'))"

definition Close :: "'k kernel \<Rightarrow> nat \<Rightarrow> 'k \<Rightarrow> 'k" where
  "Close k fd st = close_fd k fd st"

text \<open>The command of the ioctl and, as in the comment of the source, what it is made of.\<close>

definition nsmIoctlRequest :: uint32 where
  "nsmIoctlRequest = 0xC0200A00"

lemma nsmIoctlRequest_encodes:
  "nsmIoctlRequest = push_bit 30 3 + push_bit 16 32 + push_bit 8 0x0A + 0"
  by (simp add: nsmIoctlRequest_def push_bit_eq_mult)

definition nsm_message :: "byte list \<Rightarrow> nsmMessage" where
  "nsm_message request =
     (let response = replicate nsmResponseMaxSize 0
      in \<lparr>Request = \<lparr>Base = request, Len = of_nat (length request)\<rparr>,
          Response = \<lparr>Base = response, Len = of_nat (length response)\<rparr>\<rparr>)"

text \<open>
  \<open>nsmIoctl\<close>: the buffer starts as zeros, the kernel writes a prefix of it at most, and the
  stored length is checked against the buffer before the slice is taken.
\<close>

definition nsmIoctl :: "'k kernel \<Rightarrow> nat \<Rightarrow> byte list \<Rightarrow> 'k \<Rightarrow> (string + byte list) \<times> 'k" where
  "nsmIoctl k fd request st =
     (if request = [] then (Inl ''empty request'', st)
      else if length request > nsmRequestMaxSize then
        (Inl (''request too large ('' @ Itoa (length request) @ '' > '' @ Itoa nsmRequestMaxSize @ '')''), st)
      else
        (case ioctl k fd nsmIoctlRequest (nsm_message request) st of (r, st') \<Rightarrow>
           let response = take nsmResponseMaxSize (written r @ replicate nsmResponseMaxSize 0)
           in if errno r \<noteq> 0 then
                (if errno r = EMSGSIZE then (Inl ''input too large'', st')
                 else (Inl (''ioctl failed: '' @ errno_text k (errno r)), st'))
              else if response_len r > of_nat (length response) then
                (Inl (''response too large ('' @ Itoa (unat (response_len r)) @ '' > ''
                   @ Itoa (length response) @ '')''), st')
              else (Inr (take (unat (response_len r)) response), st')))"

definition GetAttestation ::
  "cbor \<Rightarrow> 'k kernel \<Rightarrow> nat \<Rightarrow> AttestationRequest \<Rightarrow> 'k \<Rightarrow> (string + byte list) \<times> 'k" where
  "GetAttestation cb k fd req st =
     (case validateAttestationRequest req of
        Inl e \<Rightarrow> (Inl e, st)
      | Inr _ \<Rightarrow>
          (case encodeAttestationRequest cb req of
             Inl e \<Rightarrow> (Inl (''encode request: '' @ e), st)
           | Inr encodedReq \<Rightarrow>
               (case nsmIoctl k fd encodedReq st of
                  (Inl e, st') \<Rightarrow> (Inl e, st')
                | (Inr resp, st') \<Rightarrow> (decodeAttestationResponse cb resp, st'))))"

definition GetRandom :: "cbor \<Rightarrow> 'k kernel \<Rightarrow> nat \<Rightarrow> 'k \<Rightarrow> (string + byte list) \<times> 'k" where
  "GetRandom cb k fd st =
     (case encodeGetRandomRequest cb of
        Inl e \<Rightarrow> (Inl (''encode request: '' @ e), st)
      | Inr encodedReq \<Rightarrow>
          (case nsmIoctl k fd encodedReq st of
             (Inl e, st') \<Rightarrow> (Inl e, st')
           | (Inr resp, st') \<Rightarrow> (decodeGetRandomResponse cb resp, st')))"

end
