(* ===== verification/Nsm_Protocol.thy ===== *)
theory Nsm_Protocol
  imports Go_Json Nsm_Device
begin

text \<open>
  \<open>nsm.go\<close>, protocol side: one request line in, one response line out, in the JSON Lines form
  and in the legacy form. A backend (Go's interface \<open>NsmBackend\<close>) is a record of its two methods
  over a state of its own, so that a theorem can say whether and how a line reaches it.
\<close>

section \<open>Backends\<close>

record 'b NsmBackend =
  get_attestation :: "AttestationRequest \<Rightarrow> 'b \<Rightarrow> (string + byte list) \<times> 'b"
  get_random :: "'b \<Rightarrow> (string + byte list) \<times> 'b"

definition NitroBackend :: "cbor \<Rightarrow> 'k kernel \<Rightarrow> nat \<Rightarrow> 'k NsmBackend" where
  "NitroBackend cb k fd = \<lparr>get_attestation = GetAttestation cb k fd, get_random = GetRandom cb k fd\<rparr>"

section \<open>Fields\<close>

definition nsmIDMaxSize :: nat where
  "nsmIDMaxSize = 64"

definition id_char :: "char \<Rightarrow> bool" where
  "id_char c \<longleftrightarrow>
     is_lower c \<or> is_upper c \<or> is_digit c
     \<or> c = CHR ''.'' \<or> c = CHR ''_'' \<or> c = CHR '':'' \<or> c = CHR ''-''"

definition validNsmID :: "string \<Rightarrow> bool" where
  "validNsmID i \<longleftrightarrow> i \<noteq> [] \<and> length i \<le> nsmIDMaxSize \<and> list_all id_char i"

definition reason_rune :: "nat \<Rightarrow> bool" where
  "reason_rune r \<longleftrightarrow>
     (97 \<le> r \<and> r \<le> 122) \<or> (65 \<le> r \<and> r \<le> 90) \<or> (48 \<le> r \<and> r \<le> 57) \<or> r = 95 \<or> r = 45 \<or> r = 46"

definition protocolError :: "string \<Rightarrow> string" where
  "protocolError reason =
     (if reason = [] then ''backend_error''
      else if list_all (\<lambda>x. reason_rune (fst x)) (runes reason) then reason
      else ''backend_error'')"

text \<open>The two results \<open>(bytes, errCode)\<close> of the field decoders: an error code, or bytes or nil.\<close>

definition decodeRequiredHex :: "string \<Rightarrow> string \<Rightarrow> string + byte list option" where
  "decodeRequiredHex s missingCode =
     (if s = [] then Inl missingCode
      else
        (case DecodeString s of
           None \<Rightarrow> Inl ''invalid_hex''
         | Some decoded \<Rightarrow> if decoded = [] then Inl missingCode else Inr (Some decoded)))"

definition decodeOptionalHex :: "string \<Rightarrow> string + byte list option" where
  "decodeOptionalHex s =
     (if s = [] then Inr None
      else
        (case DecodeString s of
           None \<Rightarrow> Inl ''invalid_hex''
         | Some decoded \<Rightarrow> Inr (Some decoded)))"

definition decodeOptionalLegacyHex :: "string \<Rightarrow> string + byte list option" where
  "decodeOptionalLegacyHex s = (if s = ''-'' then Inr None else decodeOptionalHex s)"

section \<open>JSON Lines\<close>

record nsmJSONRequest =
  req_id :: string
  req_method :: string
  req_publicKey :: string
  req_nonce :: string
  req_userData :: string

record nsmJSONResponse =
  resp_id :: string
  resp_ok :: bool
  resp_data :: string
  resp_error :: string

definition zero_request :: nsmJSONRequest where
  "zero_request = \<lparr>req_id = [], req_method = [], req_publicKey = [], req_nonce = [], req_userData = []\<rparr>"

definition request_keys :: "string list" where
  "request_keys = [''id'', ''method'', ''publicKey'', ''nonce'', ''userData'']"

text \<open>
  \<open>Decode\<close> into \<open>nsmJSONRequest\<close> with \<open>DisallowUnknownFields\<close>: every member must match a field and
  hold a string or null.
\<close>

definition request_member :: "string \<times> json \<Rightarrow> nsmJSONRequest \<Rightarrow> nsmJSONRequest option" where
  "request_member m req =
     (case m of (key, v) \<Rightarrow>
        (case field_of request_keys key of
           None \<Rightarrow> None
         | Some f \<Rightarrow>
             if f = ''id'' then map_option (\<lambda>s. req\<lparr>req_id := s\<rparr>) (unmarshal_string v (req_id req))
             else if f = ''method'' then
               map_option (\<lambda>s. req\<lparr>req_method := s\<rparr>) (unmarshal_string v (req_method req))
             else if f = ''publicKey'' then
               map_option (\<lambda>s. req\<lparr>req_publicKey := s\<rparr>) (unmarshal_string v (req_publicKey req))
             else if f = ''nonce'' then
               map_option (\<lambda>s. req\<lparr>req_nonce := s\<rparr>) (unmarshal_string v (req_nonce req))
             else map_option (\<lambda>s. req\<lparr>req_userData := s\<rparr>) (unmarshal_string v (req_userData req))))"

fun request_members :: "(string \<times> json) list \<Rightarrow> nsmJSONRequest \<Rightarrow> nsmJSONRequest option" where
  "request_members [] req = Some req"
| "request_members (m # ms) req = Option.bind (request_member m req) (request_members ms)"

fun unmarshal_request :: "json \<Rightarrow> nsmJSONRequest option" where
  "unmarshal_request JNull = Some zero_request"
| "unmarshal_request (JObj ms) = request_members ms zero_request"
| "unmarshal_request _ = None"

text \<open>
  \<open>json.Marshal\<close> of the response struct: empty \<open>data\<close> and \<open>error\<close> are left out. It cannot fail on
  strings and a bool, so the \<open>internal_error\<close> branch of the code has no counterpart.
\<close>

definition marshalNsmJSONResponse :: "nsmJSONResponse \<Rightarrow> string" where
  "marshalNsmJSONResponse resp =
     ''{'' @ comma_list
       ([member_text ''id'' (quote (resp_id resp)),
         member_text ''ok'' (if resp_ok resp then ''true'' else ''false'')]
        @ (if resp_data resp = [] then [] else [member_text ''data'' (quote (resp_data resp))])
        @ (if resp_error resp = [] then [] else [member_text ''error'' (quote (resp_error resp))]))
     @ ''}''"

definition json_error_line :: "string \<Rightarrow> string \<Rightarrow> string" where
  "json_error_line i code =
     marshalNsmJSONResponse \<lparr>resp_id = i, resp_ok = False, resp_data = [], resp_error = code\<rparr>"

definition json_ok_line :: "string \<Rightarrow> byte list \<Rightarrow> string" where
  "json_ok_line i bs =
     marshalNsmJSONResponse \<lparr>resp_id = i, resp_ok = True, resp_data = EncodeToString bs, resp_error = []\<rparr>"

text \<open>The answer to a backend call: the error or the bytes it returned.\<close>

definition answer ::
  "(string \<Rightarrow> string) \<Rightarrow> (byte list \<Rightarrow> string) \<Rightarrow> (string + byte list) \<times> 'b \<Rightarrow> string \<times> 'b" where
  "answer err ok r =
     (case r of
        (Inl e, st) \<Rightarrow> (err (protocolError e), st)
      | (Inr bs, st) \<Rightarrow> (ok bs, st))"

definition handleNsmJSONLine :: "'b NsmBackend \<Rightarrow> string \<Rightarrow> 'b \<Rightarrow> string \<times> 'b" where
  "handleNsmJSONLine backend line st =
     (case Decode line of
        None \<Rightarrow> (json_error_line [] ''invalid_json'', st)
      | Some (v, rest) \<Rightarrow>
          (case unmarshal_request v of
             None \<Rightarrow> (json_error_line [] ''invalid_json'', st)
           | Some req \<Rightarrow>
               if \<not> at_eof rest then (json_error_line [] ''invalid_json'', st)
               else if \<not> validNsmID (req_id req) then (json_error_line [] ''invalid_id'', st)
               else if req_method req = ''ATT'' then
                 (case decodeRequiredHex (req_publicKey req) ''missing_public_key'' of
                    Inl code \<Rightarrow> (json_error_line (req_id req) code, st)
                  | Inr publicKey \<Rightarrow>
                      (case decodeOptionalHex (req_nonce req) of
                         Inl code \<Rightarrow> (json_error_line (req_id req) code, st)
                       | Inr nonce \<Rightarrow>
                           (case decodeOptionalHex (req_userData req) of
                              Inl code \<Rightarrow> (json_error_line (req_id req) code, st)
                            | Inr userData \<Rightarrow>
                                answer (json_error_line (req_id req)) (json_ok_line (req_id req))
                                  (get_attestation backend
                                    \<lparr>PublicKey = publicKey, Nonce = nonce, UserData = userData\<rparr> st))))
               else if req_method req = ''RND'' then
                 (if req_publicKey req \<noteq> [] \<or> req_nonce req \<noteq> [] \<or> req_userData req \<noteq> []
                  then (json_error_line (req_id req) ''invalid_request'', st)
                  else answer (json_error_line (req_id req)) (json_ok_line (req_id req))
                         (get_random backend st))
               else (json_error_line (req_id req) ''unknown_method'', st)))"

section \<open>The legacy form\<close>

definition legacy_error_line :: "string \<Rightarrow> string \<Rightarrow> string" where
  "legacy_error_line i code = i @ '' ERR '' @ code"

definition legacy_ok_line :: "string \<Rightarrow> byte list \<Rightarrow> string" where
  "legacy_ok_line i bs = i @ '' OK '' @ EncodeToString bs"

definition handleNsmLegacyLine :: "'b NsmBackend \<Rightarrow> string \<Rightarrow> 'b \<Rightarrow> string \<times> 'b" where
  "handleNsmLegacyLine backend trimmed st =
     (let parts = Fields trimmed;
          i = (if parts \<noteq> [] then parts ! 0 else ''0'')
      in if \<not> validNsmID i then (''0 ERR invalid_id'', st)
      else if length parts < 2 then (legacy_error_line i ''invalid_request'', st)
      else if parts ! 1 = ''ATT'' then
        (if length parts = 2 then (legacy_error_line i ''missing_public_key'', st)
         else if length parts \<noteq> 3 \<and> length parts \<noteq> 5 then (legacy_error_line i ''invalid_request'', st)
         else
           (case decodeRequiredHex (parts ! 2) ''missing_public_key'' of
              Inl code \<Rightarrow> (legacy_error_line i code, st)
            | Inr publicKey \<Rightarrow>
                (case (if length parts = 5 then decodeOptionalLegacyHex (parts ! 3) else Inr None) of
                   Inl code \<Rightarrow> (legacy_error_line i code, st)
                 | Inr nonce \<Rightarrow>
                     (case (if length parts = 5 then decodeOptionalLegacyHex (parts ! 4) else Inr None) of
                        Inl code \<Rightarrow> (legacy_error_line i code, st)
                      | Inr userData \<Rightarrow>
                          answer (legacy_error_line i) (legacy_ok_line i)
                            (get_attestation backend
                              \<lparr>PublicKey = publicKey, Nonce = nonce, UserData = userData\<rparr> st)))))
      else if parts ! 1 = ''RND'' then
        (if length parts \<noteq> 2 then (legacy_error_line i ''invalid_request'', st)
         else answer (legacy_error_line i) (legacy_ok_line i) (get_random backend st))
      else (legacy_error_line i ''unknown_method'', st))"

definition handleNsmLine :: "'b NsmBackend \<Rightarrow> string \<Rightarrow> 'b \<Rightarrow> string \<times> 'b" where
  "handleNsmLine backend line st =
     (let trimmed = TrimSpace line
      in if trimmed = [] then (''0 ERR empty_request'', st)
         else if prefix ''{'' trimmed then handleNsmJSONLine backend trimmed st
         else handleNsmLegacyLine backend trimmed st)"

end
