(* ===== verification/Nsm_Requests.thy ===== *)
theory Nsm_Requests
  imports Nsm_Protocol
begin

text \<open>
  What the line protocol of \<open>nsm.go\<close> promises: a specification that separates reading a request
  from serving it and the proof that the handlers implement it, the shape of every response line,
  the contract of a backend (the locale \<open>nsm_backend\<close>, which \<open>NitroBackend\<close> satisfies for every
  kernel and every CBOR package), and the way of a request and its answer between client and
  backend in both forms of the protocol.
\<close>

section \<open>The service behind the two forms\<close>

datatype call = Attest AttestationRequest | Random

datatype form = JsonForm | LegacyForm

fun serve :: "'b NsmBackend \<Rightarrow> call \<Rightarrow> 'b \<Rightarrow> (string + byte list) \<times> 'b" where
  "serve b (Attest r) st = get_attestation b r st"
| "serve b Random st = get_random b st"

fun error_line :: "form \<Rightarrow> string \<Rightarrow> string \<Rightarrow> string" where
  "error_line JsonForm = json_error_line"
| "error_line LegacyForm = legacy_error_line"

fun ok_line :: "form \<Rightarrow> string \<Rightarrow> byte list \<Rightarrow> string" where
  "ok_line JsonForm = json_ok_line"
| "ok_line LegacyForm = legacy_ok_line"

text \<open>The call a decoded request asks for, or the error code it is refused with.\<close>

definition attest_call :: "string \<Rightarrow> string + byte list option \<Rightarrow> string + byte list option \<Rightarrow> string + call"
where
  "attest_call key nonce userData =
     rbind (decodeRequiredHex key ''missing_public_key'') (\<lambda>publicKey.
     rbind nonce (\<lambda>nonce.
     rbind userData (\<lambda>userData.
     Inr (Attest \<lparr>PublicKey = publicKey, Nonce = nonce, UserData = userData\<rparr>))))"

definition json_call :: "nsmJSONRequest \<Rightarrow> string + call" where
  "json_call req =
     (if req_method req = ''ATT'' then
        attest_call (req_publicKey req) (decodeOptionalHex (req_nonce req)) (decodeOptionalHex (req_userData req))
      else if req_method req = ''RND'' then
        (if req_publicKey req = [] \<and> req_nonce req = [] \<and> req_userData req = [] then Inr Random
         else Inl ''invalid_request'')
      else Inl ''unknown_method'')"

definition legacy_call :: "string list \<Rightarrow> string + call" where
  "legacy_call words =
     (case words of
        [] \<Rightarrow> Inl ''invalid_request''
      | w # ws \<Rightarrow>
          if w = ''ATT'' then
            (case ws of
               [] \<Rightarrow> Inl ''missing_public_key''
             | [key] \<Rightarrow> attest_call key (Inr None) (Inr None)
             | [key, nonce, userData] \<Rightarrow>
                 attest_call key (decodeOptionalLegacyHex nonce) (decodeOptionalLegacyHex userData)
             | _ \<Rightarrow> Inl ''invalid_request'')
          else if w = ''RND'' then (if ws = [] then Inr Random else Inl ''invalid_request'')
          else Inl ''unknown_method'')"

text \<open>
  A request line: the form of its answer, the id to answer to, and the call or the error code.
\<close>

definition read_request :: "string \<Rightarrow> form \<times> string \<times> (string + call)" where
  "read_request line =
     (let t = TrimSpace line
      in if t = [] then (LegacyForm, ''0'', Inl ''empty_request'')
      else if prefix ''{'' t then
        (case Option.bind (Decode t) (\<lambda>(v, rest). if at_eof rest then unmarshal_request v else None) of
           None \<Rightarrow> (JsonForm, [], Inl ''invalid_json'')
         | Some req \<Rightarrow>
             if validNsmID (req_id req) then (JsonForm, req_id req, json_call req)
             else (JsonForm, [], Inl ''invalid_id''))
      else
        (let words = Fields t; i = (if words = [] then ''0'' else hd words)
         in if validNsmID i then (LegacyForm, i, legacy_call (tl words))
            else (LegacyForm, ''0'', Inl ''invalid_id'')))"

definition respond :: "'b NsmBackend \<Rightarrow> form \<times> string \<times> (string + call) \<Rightarrow> 'b \<Rightarrow> string \<times> 'b" where
  "respond b r st =
     (case r of
        (fm, i, Inl code) \<Rightarrow> (error_line fm i code, st)
      | (fm, i, Inr c) \<Rightarrow> answer (error_line fm i) (ok_line fm i) (serve b c st))"

lemma json_refines:
  assumes "t \<noteq> []" "prefix ''{'' t" "TrimSpace line = t"
  shows "handleNsmJSONLine b t st = respond b (read_request line) st"
  using assms
  by (auto simp: handleNsmJSONLine_def read_request_def respond_def json_call_def attest_call_def rbind_def
      split: option.split sum.split prod.split)

lemma legacy_refines_words:
  assumes "Fields t = w # ws" "validNsmID w"
  shows "handleNsmLegacyLine b t st = respond b (LegacyForm, w, legacy_call ws) st"
proof -
  consider "ws = []" | m where "ws = [m]" | m k where "ws = [m, k]" | m k n where "ws = [m, k, n]"
    | m k n u where "ws = [m, k, n, u]" | m k n u x xs where "ws = m # k # n # u # x # xs"
    by (metis neq_Nil_conv)
  then show ?thesis
    using assms
    by cases (auto simp: handleNsmLegacyLine_def respond_def legacy_call_def attest_call_def rbind_def
        split: sum.split)
qed

lemma legacy_refines:
  assumes "t \<noteq> []" "\<not> prefix ''{'' t" "TrimSpace line = t"
  shows "handleNsmLegacyLine b t st = respond b (read_request line) st"
proof (cases "Fields t")
  case Nil
  with assms show ?thesis
    by (simp add: handleNsmLegacyLine_def read_request_def respond_def legacy_call_def validNsmID_def
        nsmIDMaxSize_def id_char_def is_digit_def legacy_error_line_def)
next
  case (Cons w ws)
  show ?thesis
  proof (cases "validNsmID w")
    case True
    with Cons assms show ?thesis by (simp add: legacy_refines_words read_request_def)
  next
    case False
    with Cons assms show ?thesis
      by (simp add: handleNsmLegacyLine_def read_request_def respond_def legacy_error_line_def)
  qed
qed

lemma handle_respond: "handleNsmLine b line st = respond b (read_request line) st"
  using json_refines [of "TrimSpace line" line b st] legacy_refines [of "TrimSpace line" line b st]
  by (auto simp: handleNsmLine_def Let_def)
    (simp add: read_request_def respond_def legacy_error_line_def)

section \<open>Response lines\<close>

definition printable :: "char \<Rightarrow> bool" where
  "printable c \<longleftrightarrow> 0x20 \<le> ord c \<and> ord c \<le> 0x7E"

definition reason_char :: "char \<Rightarrow> bool" where
  "reason_char c \<longleftrightarrow>
     is_lower c \<or> is_upper c \<or> is_digit c \<or> c = CHR ''_'' \<or> c = CHR ''-'' \<or> c = CHR ''.''"

definition error_code :: "string \<Rightarrow> bool" where
  "error_code code \<longleftrightarrow> code \<noteq> [] \<and> list_all reason_char code"

lemma reason_rune_char: "reason_rune (ord c) \<longleftrightarrow> reason_char c"
proof -
  have "ord c = 95 \<longleftrightarrow> c = CHR ''_''" "ord c = 45 \<longleftrightarrow> c = CHR ''-''" "ord c = 46 \<longleftrightarrow> c = CHR ''.''"
    using ord_inj [of c "CHR ''_''"] ord_inj [of c "CHR ''-''"] ord_inj [of c "CHR ''.''"]
    by (simp_all del: ord_inj)
  then show ?thesis
    by (auto simp: reason_rune_def reason_char_def is_lower_def is_upper_def is_digit_def)
qed

lemma backend_error_code: "error_code ''backend_error''"
  by (simp add: error_code_def reason_char_def is_lower_def)

lemma protocolError_eq: "protocolError reason = (if error_code reason then reason else ''backend_error'')"
proof -
  have "r < 128" if "reason_rune r" for r using that by (auto simp: reason_rune_def)
  then have "list_all (\<lambda>x. reason_rune (fst x)) (runes reason) \<longleftrightarrow> list_all reason_char reason"
    using all_runes_bytes [of reason_rune reason] by (simp only: reason_rune_char)
  then show ?thesis by (simp add: protocolError_def error_code_def)
qed

lemma protocolError_code [simp]: "error_code (protocolError reason)"
  by (simp add: protocolError_eq backend_error_code)

lemma char_classes:
  "reason_char c \<Longrightarrow> html_safe c" "id_char c \<Longrightarrow> html_safe c" "hex_char c \<Longrightarrow> html_safe c"
  "html_safe c \<Longrightarrow> ord c \<noteq> 0x7F \<Longrightarrow> printable c"
  "reason_char c \<Longrightarrow> printable c" "id_char c \<Longrightarrow> printable c" "hex_char c \<Longrightarrow> printable c"
  by (auto simp: reason_char_def id_char_def hex_char_def html_safe_def plain_char_def printable_def
      is_lower_def is_upper_def is_digit_def)

lemma all_mono: "list_all P s \<Longrightarrow> (\<And>c. P c \<Longrightarrow> Q c) \<Longrightarrow> list_all Q s"
  by (auto simp: list_all_iff)

text \<open>The ids that responses carry: a valid one, or none after a request that has none.\<close>

definition response_id :: "string \<Rightarrow> bool" where
  "response_id i \<longleftrightarrow> i = [] \<or> validNsmID i"

lemma response_id_chars: "response_id i \<Longrightarrow> list_all id_char i"
  by (auto simp: response_id_def validNsmID_def)

definition error_members :: "string \<Rightarrow> string \<Rightarrow> (string \<times> json) list" where
  "error_members i code = [(''id'', JStr i), (''ok'', JBool False), (''error'', JStr code)]"

definition ok_members :: "string \<Rightarrow> byte list \<Rightarrow> (string \<times> json) list" where
  "ok_members i bs = [(''id'', JStr i), (''ok'', JBool True), (''data'', JStr (EncodeToString bs))]"

lemma quote_id: "response_id i \<Longrightarrow> quote i = [dquote] @ i @ [dquote]"
  using response_id_chars char_classes(2) by (intro quote_safe) (auto intro: all_mono)

lemma quote_code: "error_code code \<Longrightarrow> quote code = [dquote] @ code @ [dquote]"
  using char_classes(1) by (intro quote_safe) (auto intro: all_mono simp: error_code_def)

lemma quote_hex: "quote (EncodeToString bs) = [dquote] @ EncodeToString bs @ [dquote]"
  using char_classes(3) EncodeToString_hex_char by (intro quote_safe) (auto intro: all_mono)

lemma json_error_render:
  assumes "response_id i" "error_code code"
  shows "json_error_line i code = render (JObj (error_members i code))"
proof -
  have "code \<noteq> []" using assms(2) by (simp add: error_code_def)
  then show ?thesis
    by (simp add: json_error_line_def marshalNsmJSONResponse_def quote_id [OF assms(1)]
        quote_code [OF assms(2)] error_members_def)
qed

lemma json_ok_render:
  assumes "response_id i" "bs \<noteq> []"
  shows "json_ok_line i bs = render (JObj (ok_members i bs))"
  using assms(2)
  by (simp add: json_ok_line_def marshalNsmJSONResponse_def quote_id [OF assms(1)] quote_hex ok_members_def)

lemma printable_list:
  "response_id i \<Longrightarrow> list_all printable i" "error_code code \<Longrightarrow> list_all printable code"
  "list_all printable (EncodeToString bs)"
  using all_mono [OF response_id_chars, of i printable] all_mono [of reason_char code printable]
    all_mono [OF EncodeToString_hex_char, of printable bs] char_classes(5-7)
  by (simp_all add: error_code_def)

lemma lines_printable:
  assumes "response_id i"
  shows "error_code code \<Longrightarrow> list_all printable (error_line fm i code)" "list_all printable (ok_line fm i bs)"
  using printable_list(1) [OF assms] printable_list(2) [of code] printable_list(3) [of bs]
  by (cases fm; simp add: json_error_line_def json_ok_line_def marshalNsmJSONResponse_def
      quote_id [OF assms] quote_code quote_hex member_text_def legacy_error_line_def
      legacy_ok_line_def; simp add: printable_def)+

text \<open>What a request line is read as.\<close>

definition request_codes :: "string set" where
  "request_codes =
     {''empty_request'', ''invalid_json'', ''invalid_id'', ''invalid_request'', ''missing_public_key'',
      ''invalid_hex'', ''unknown_method''}"

lemma request_codes_ok: "code \<in> request_codes \<Longrightarrow> error_code code"
  by (auto simp: request_codes_def error_code_def reason_char_def is_lower_def)

lemma decode_codes:
  "decodeRequiredHex s ''missing_public_key'' = Inl code \<Longrightarrow> code \<in> request_codes"
  "decodeOptionalHex s = Inl code \<Longrightarrow> code \<in> request_codes"
  "decodeOptionalLegacyHex s = Inl code \<Longrightarrow> code \<in> request_codes"
  by (auto simp: decodeRequiredHex_def decodeOptionalHex_def decodeOptionalLegacyHex_def
      request_codes_def split: if_splits option.splits)

lemma call_codes:
  "json_call req = Inl code \<Longrightarrow> code \<in> request_codes"
  "legacy_call ws = Inl code \<Longrightarrow> code \<in> request_codes"
  using decode_codes
  by (auto simp: json_call_def legacy_call_def attest_call_def result_iff split: if_splits list.splits)
    (auto simp: request_codes_def)

lemma read_request_shape:
  assumes "read_request line = (fm, i, r)"
  shows "response_id i" "r = Inl code \<Longrightarrow> code \<in> request_codes"
proof -
  have zero: "validNsmID ''0''"
    by (simp add: validNsmID_def nsmIDMaxSize_def id_char_def is_digit_def)
  with assms show "response_id i"
    by (auto simp: read_request_def response_id_def Let_def split: if_splits option.splits)
  from assms show "r = Inl code \<Longrightarrow> code \<in> request_codes"
    using call_codes
    by (auto simp: read_request_def Let_def split: if_splits option.splits)
      (auto simp: request_codes_def)
qed

lemma respond_printable:
  assumes "response_id i" "\<And>code. r = Inl code \<Longrightarrow> error_code code"
  shows "list_all printable (fst (respond b (fm, i, r) st))"
proof (cases r)
  case (Inl code)
  with assms lines_printable(1) show ?thesis by (simp add: respond_def)
next
  case (Inr c)
  then show ?thesis
    using lines_printable [OF assms(1)]
    by (auto simp: respond_def answer_def split: prod.split sum.split)
qed

section \<open>Backends that keep the contract\<close>

text \<open>
  What the handlers need of a backend: the bytes of a success are not empty (an empty \<open>data\<close> would
  vanish from the JSON answer), and what the client may be told about a failure is one of a few codes.
\<close>

definition device_codes :: "string set" where
  "device_codes =
     {''missing_public_key'', ''public_key_too_large'', ''nonce_too_large'', ''user_data_too_large'',
      ''backend_error''}"

locale nsm_backend =
  fixes b :: "'b NsmBackend"
  assumes attestation_bytes: "get_attestation b r st = (Inr bs, st') \<Longrightarrow> bs \<noteq> []"
    and random_bytes: "get_random b st = (Inr bs, st') \<Longrightarrow> bs \<noteq> []"
    and attestation_error: "get_attestation b r st = (Inl e, st') \<Longrightarrow> protocolError e \<in> device_codes"
    and random_error: "get_random b st = (Inl e, st') \<Longrightarrow> protocolError e \<in> device_codes"
begin

lemma serve_bytes: "serve b c st = (Inr bs, st') \<Longrightarrow> bs \<noteq> []"
  using attestation_bytes random_bytes by (cases c) auto

lemma serve_error: "serve b c st = (Inl e, st') \<Longrightarrow> protocolError e \<in> device_codes"
  using attestation_error random_error by (cases c) auto

text \<open>Every answer is an error line with a known code or a success line with data.\<close>

lemma answer_line:
  assumes "read_request line = (fm, i, r)"
  shows "\<exists>l st'. handleNsmLine b line st = (l, st') \<and> response_id i
    \<and> ((\<exists>code \<in> request_codes \<union> device_codes. l = error_line fm i code)
       \<or> (\<exists>bs. bs \<noteq> [] \<and> l = ok_line fm i bs))"
proof (cases r)
  case (Inl code)
  with assms read_request_shape [OF assms] show ?thesis
    by (auto simp: handle_respond respond_def)
next
  case (Inr c)
  obtain x st' where s: "serve b c st = (x, st')" by force
  show ?thesis
  proof (cases x)
    case (Inl e)
    with s serve_error [of c st e st'] Inr assms read_request_shape(1) [OF assms] show ?thesis
      by (auto simp: handle_respond respond_def answer_def)
  next
    case (Inr bs)
    with s serve_bytes [of c st bs st'] \<open>r = Inr c\<close> assms read_request_shape(1) [OF assms] show ?thesis
      by (auto simp: handle_respond respond_def answer_def)
  qed
qed

end

text \<open>The texts of the device side that are not codes contain a blank, which hides them.\<close>

lemma protocolError_blank: "CHR '' '' \<in> set e \<Longrightarrow> protocolError e = ''backend_error''"
proof -
  assume "CHR '' '' \<in> set e"
  moreover have "\<not> reason_char (CHR '' '')" by (simp add: reason_char_def is_lower_def is_upper_def is_digit_def)
  ultimately have "\<not> error_code e" by (auto simp: error_code_def list_all_iff)
  then show ?thesis by (simp add: protocolError_eq)
qed

lemma decode_bytes_field_blank: "decode_bytes_field cb w bw f raw = Inl e \<Longrightarrow> CHR '' '' \<in> set e"
  by (auto simp: decode_bytes_field_def result_iff split: if_splits)

lemma decodeNsmResponse_blank:
  assumes "decodeNsmResponse cb resp = Inl e"
  shows "CHR '' '' \<in> set e"
proof (cases "UnmarshalMap cb resp")
  case (Inl f)
  with assms show ?thesis by (auto simp: decodeNsmResponse_def)
next
  case (Inr m)
  consider "m = []" | key raw where "m = [(key, raw)]" | x y zs where "m = x # y # zs"
    by (metis neq_Nil_conv surj_pair)
  then show ?thesis
    using assms Inr
    by cases (auto simp: decodeNsmResponse_def result_iff dest: decode_bytes_field_blank split: if_splits)
qed

lemma decode_error_blank:
  "decodeAttestationResponse cb resp = Inl e \<Longrightarrow> CHR '' '' \<in> set e"
  "decodeGetRandomResponse cb resp = Inl e \<Longrightarrow> CHR '' '' \<in> set e"
  by (cases "decodeNsmResponse cb resp";
      auto simp: decodeAttestationResponse_def decodeGetRandomResponse_def
        dest: decodeNsmResponse_blank split: nsmResponse.split_asm)+

lemma decode_bytes_field_not_empty: "decode_bytes_field cb w bw f raw = Inr bs \<Longrightarrow> bs \<noteq> []"
  by (auto simp: decode_bytes_field_def rbind_Inr_iff split: if_splits)

text \<open>A response that is accepted has exactly one entry, the variant.\<close>

lemma decodeNsmResponse_Inr:
  assumes "decodeNsmResponse cb resp = Inr r"
  obtains key raw where "UnmarshalMap cb resp = Inr [(key, raw)]"
    "key = ''Attestation'' \<and> (\<exists>bs. r = AttestationDocument bs \<and>
        decode_bytes_field cb ''attestation'' ''attestation document'' ''document'' raw = Inr bs)
     \<or> key = ''GetRandom'' \<and> (\<exists>bs. r = RandomBytes bs \<and>
        decode_bytes_field cb ''random'' ''random bytes'' ''random'' raw = Inr bs)
     \<or> key = ''Error'' \<and> (\<exists>code. r = DeviceError code \<and> code \<noteq> [] \<and> UnmarshalText cb raw = Inr code)"
proof -
  from assms obtain m where m: "UnmarshalMap cb resp = Inr m"
    by (auto simp: decodeNsmResponse_def result_iff)
  with assms obtain key raw where "m = [(key, raw)]"
    by (cases m rule: list.exhaust; cases "tl m") (auto simp: decodeNsmResponse_def)
  with assms m that [of key raw] show ?thesis
    by (auto simp: decodeNsmResponse_def result_iff split: if_splits)
qed

lemma decode_bytes_not_empty:
  assumes "decodeAttestationResponse cb resp = Inr bs \<or> decodeGetRandomResponse cb resp = Inr bs"
  shows "bs \<noteq> []"
proof -
  from assms obtain r where "decodeNsmResponse cb resp = Inr r"
    by (auto simp: decodeAttestationResponse_def decodeGetRandomResponse_def rbind_Inr_iff)
  moreover from this assms have "r = AttestationDocument bs \<or> r = RandomBytes bs"
    by (cases r) (auto simp: decodeAttestationResponse_def decodeGetRandomResponse_def)
  ultimately have r: "decodeNsmResponse cb resp = Inr r" "r = AttestationDocument bs \<or> r = RandomBytes bs"
    by simp_all
  from r(1) show ?thesis
    by (rule decodeNsmResponse_Inr) (use r(2) in \<open>auto dest: decode_bytes_field_not_empty\<close>)
qed

lemma ioctl_error_blank: "nsmIoctl k fd req st = (Inl e, st') \<Longrightarrow> CHR '' '' \<in> set e"
  by (auto simp: nsmIoctl_def Let_def split: if_splits prod.splits)

lemma validate_codes: "validateAttestationRequest r = Inl e \<Longrightarrow> e \<in> device_codes \<and> error_code e"
  by (auto simp: validateAttestationRequest_def result_iff device_codes_def error_code_def
      reason_char_def is_lower_def)

lemma blank_code: "CHR '' '' \<in> set e \<Longrightarrow> protocolError e \<in> device_codes"
  by (simp add: protocolError_blank device_codes_def)

lemma GetAttestation_error:
  assumes "GetAttestation cb k fd r st = (Inl e, st')"
  shows "protocolError e \<in> device_codes"
proof (cases "validateAttestationRequest r")
  case (Inl e')
  with assms validate_codes [OF Inl] show ?thesis by (simp add: GetAttestation_def protocolError_eq)
next
  case (Inr u)
  with assms have "CHR '' '' \<in> set e"
    by (auto simp: GetAttestation_def dest: ioctl_error_blank decode_error_blank split: sum.splits prod.splits)
  then show ?thesis by (rule blank_code)
qed

lemma GetRandom_error: "GetRandom cb k fd st = (Inl e, st') \<Longrightarrow> protocolError e \<in> device_codes"
  by (rule blank_code)
    (auto simp: GetRandom_def dest: ioctl_error_blank decode_error_blank split: sum.splits prod.splits)

interpretation nitro: nsm_backend "NitroBackend cb k fd" for cb k fd
proof unfold_locales
  fix r st bs st'
  show "get_attestation (NitroBackend cb k fd) r st = (Inr bs, st') \<Longrightarrow> bs \<noteq> []"
    using decode_bytes_not_empty
    by (auto simp: NitroBackend_def GetAttestation_def split: sum.splits prod.splits)
  show "get_random (NitroBackend cb k fd) st = (Inr bs, st') \<Longrightarrow> bs \<noteq> []"
    using decode_bytes_not_empty
    by (auto simp: NitroBackend_def GetRandom_def split: sum.splits prod.splits)
next
  fix r st e st'
  show "get_attestation (NitroBackend cb k fd) r st = (Inl e, st') \<Longrightarrow> protocolError e \<in> device_codes"
    by (simp add: NitroBackend_def GetAttestation_error)
  show "get_random (NitroBackend cb k fd) st = (Inl e, st') \<Longrightarrow> protocolError e \<in> device_codes"
    by (simp add: NitroBackend_def GetRandom_error)
qed

section \<open>Properties of the protocol\<close>

text \<open>
  C5: The two handlers implement one service: a line is read as a form, an id and a call or an
  error code; a code is answered without touching the backend, a call is made exactly once and
  its result is answered in the form and under the id of the request.
\<close>

theorem handleNsmLine_refines: "handleNsmLine b line st = respond b (read_request line) st"
  by (rule handle_respond)

text \<open>
  Whatever the line and the backend, the response is one line of printable ASCII, so that
  neither a client nor a backend error can forge a second response line.
\<close>

theorem handleNsmLine_printable:
  "list_all printable (fst (handleNsmLine b line st))
    \<and> lf \<notin> set (fst (handleNsmLine b line st)) \<and> cr \<notin> set (fst (handleNsmLine b line st))"
proof -
  obtain fm i r where r: "read_request line = (fm, i, r)" by (metis prod_cases3)
  have "list_all printable (fst (handleNsmLine b line st))"
    unfolding handle_respond r
    by (intro respond_printable read_request_shape(1) [OF r])
      (auto dest: read_request_shape(2) [OF r] intro: request_codes_ok)
  moreover have "\<not> printable lf" "\<not> printable cr" by (simp_all add: printable_def)
  ultimately show ?thesis by (auto simp: list_all_iff)
qed

text \<open>
  C15: With the real device, whatever the kernel and the CBOR decoder return, a line is answered
  by an error line with one of eleven fixed codes or by a success line with non-empty data, and the
  id is the id of the request.
\<close>

theorem NitroBackend_answers:
  "case read_request line of (fm, i, r) \<Rightarrow>
     response_id i
     \<and> (fst (handleNsmLine (NitroBackend cb k fd) line st) \<in> error_line fm i ` (request_codes \<union> device_codes)
        \<or> fst (handleNsmLine (NitroBackend cb k fd) line st) \<in> ok_line fm i ` {bs. bs \<noteq> []})"
proof -
  obtain fm i r where r: "read_request line = (fm, i, r)" by (metis prod_cases3)
  show ?thesis using nitro.answer_line [OF r, of cb k fd st] r by auto
qed

end
