(* ===== verification/Nsm_Client.thy ===== *)
theory Nsm_Client
  imports Nsm_Requests
begin

text \<open>
  The line protocol seen from a client and from the device: the request texts of both forms reach
  the backend as the same call, the response texts give the client back what the backend
  returned, and the device side accepts exactly the responses and sizes it means to.
\<close>

section \<open>Request texts\<close>

definition hex_member :: "string \<Rightarrow> byte list option \<Rightarrow> (string \<times> json) list" where
  "hex_member key s = (case s of None \<Rightarrow> [] | Some bs \<Rightarrow> [(key, JStr (EncodeToString bs))])"

definition att_members :: "string \<Rightarrow> byte list \<Rightarrow> byte list option \<Rightarrow> byte list option \<Rightarrow> (string \<times> json) list"
where
  "att_members i key nonce userData =
     [(''id'', JStr i), (''method'', JStr ''ATT''), (''publicKey'', JStr (EncodeToString key))]
     @ hex_member ''nonce'' nonce @ hex_member ''userData'' userData"

text \<open>
  \<open>{"id":"<id>","method":"ATT","publicKey":"<hex>","nonce":"<hex>","userData":"<hex>"}\<close>, the last
  two members optional, and \<open><id> ATT <hex> <hex|-> <hex|->\<close>.
\<close>

definition json_att_text :: "string \<Rightarrow> byte list \<Rightarrow> byte list option \<Rightarrow> byte list option \<Rightarrow> string" where
  "json_att_text i key nonce userData = render (JObj (att_members i key nonce userData))"

definition legacy_arg :: "byte list option \<Rightarrow> string" where
  "legacy_arg s = (case s of None \<Rightarrow> ''-'' | Some bs \<Rightarrow> EncodeToString bs)"

definition legacy_att_text :: "string \<Rightarrow> byte list \<Rightarrow> byte list option \<Rightarrow> byte list option \<Rightarrow> string" where
  "legacy_att_text i key nonce userData =
     i @ '' ATT '' @ EncodeToString key @ '' '' @ legacy_arg nonce @ '' '' @ legacy_arg userData"

lemma html_safe_plain: "list_all html_safe s \<Longrightarrow> plain s"
  by (auto simp: list_all_iff html_safe_def)

lemma hex_plain: "plain (EncodeToString bs)"
  using all_mono [OF EncodeToString_hex_char] char_classes(3) html_safe_plain by metis

lemma id_plain: "response_id i \<Longrightarrow> plain i"
  using all_mono [OF response_id_chars] char_classes(2) html_safe_plain by metis

lemma valid_response_id: "validNsmID i \<Longrightarrow> response_id i"
  by (simp add: response_id_def)

lemma flat_nesting: "list_all (\<lambda>m. nesting (snd m) = 0) ms \<Longrightarrow> nesting (JObj ms) \<le> maxNestingDepth"
  by (auto simp: nesting.simps maxNestingDepth_def list_all_iff)

lemma nesting_scalar [simp]: "nesting (JStr s) = 0" "nesting (JBool b) = 0"
  by (simp_all add: nesting.simps)

lemma hex_member_props:
  "plain key \<Longrightarrow> plain_json (JObj (hex_member key s))"
  "list_all (\<lambda>m. nesting (snd m) = 0) (hex_member key s)"
  by (auto simp: hex_member_def hex_plain split: option.splits)

lemma plain_json_append: "plain_json (JObj (xs @ ys)) \<longleftrightarrow> plain_json (JObj xs) \<and> plain_json (JObj ys)"
  by auto

lemma Decode_att:
  assumes "validNsmID i"
  shows "Decode (json_att_text i key nonce userData) = Some (JObj (att_members i key nonce userData), [])"
proof -
  have "plain_json (JObj (hex_member ''nonce'' nonce))" "plain_json (JObj (hex_member ''userData'' userData))"
    by (rule hex_member_props(1), simp add: plain_char_def)+
  then have "plain_json (JObj (att_members i key nonce userData))"
    unfolding att_members_def plain_json_append
    using id_plain [OF valid_response_id [OF assms]]
    by (simp add: hex_plain plain_char_def)
  moreover have "nesting (JObj (att_members i key nonce userData)) \<le> maxNestingDepth"
    by (rule flat_nesting) (simp add: att_members_def hex_member_props(2))
  ultimately show ?thesis
    using Decode_render [of "JObj (att_members i key nonce userData)" "[]"]
    by (simp add: json_att_text_def)
qed

lemma TrimSpace_object: "TrimSpace (render (JObj ms)) = render (JObj ms)"
  by (rule TrimSpace_id) (simp_all add: is_space_def)

lemma field_of_request_keys [simp]:
  "f \<in> set request_keys \<Longrightarrow> field_of request_keys f = Some f"
  by simp

lemma request_members_append:
  "request_members (xs @ ys) req = Option.bind (request_members xs req) (request_members ys)"
  by (induction xs arbitrary: req) (auto split: bind_splits)

lemma request_members_hex:
  "request_members (hex_member ''nonce'' s) req =
     Some (case s of None \<Rightarrow> req | Some bs \<Rightarrow> req\<lparr>req_nonce := EncodeToString bs\<rparr>)"
  "request_members (hex_member ''userData'' s) req =
     Some (case s of None \<Rightarrow> req | Some bs \<Rightarrow> req\<lparr>req_userData := EncodeToString bs\<rparr>)"
  by (simp_all add: hex_member_def request_member_def request_keys_def field_of_def split: option.split)

definition hex_or_empty :: "byte list option \<Rightarrow> string" where
  "hex_or_empty s = (case s of None \<Rightarrow> [] | Some bs \<Rightarrow> EncodeToString bs)"

lemma unmarshal_att:
  "unmarshal_request (JObj (att_members i key nonce userData)) =
     Some \<lparr>req_id = i, req_method = ''ATT'', req_publicKey = EncodeToString key,
       req_nonce = hex_or_empty nonce, req_userData = hex_or_empty userData\<rparr>"
  by (simp add: att_members_def request_members_append request_members_hex request_member_def
      request_keys_def field_of_def zero_request_def hex_or_empty_def split: option.split)

lemma decodeRequiredHex_encode:
  "bs \<noteq> [] \<Longrightarrow> decodeRequiredHex (EncodeToString bs) code = Inr (Some bs)"
  by (simp add: decodeRequiredHex_def)

lemma decodeOptionalHex_encode: "s \<noteq> Some [] \<Longrightarrow> decodeOptionalHex (hex_or_empty s) = Inr s"
  by (cases s) (auto simp: hex_or_empty_def decodeOptionalHex_def)

lemma hex_not_dash: "EncodeToString bs \<noteq> ''-''"
proof
  assume "EncodeToString bs = ''-''"
  then have "length (EncodeToString bs) = length ''-''" by (rule arg_cong)
  then have "2 * length bs = 1" by simp
  then show False by presburger
qed

lemma decodeOptionalLegacyHex_encode: "s \<noteq> Some [] \<Longrightarrow> decodeOptionalLegacyHex (legacy_arg s) = Inr s"
  by (cases s)
    (auto simp: legacy_arg_def decodeOptionalLegacyHex_def decodeOptionalHex_def hex_not_dash)

lemma read_json_att:
  assumes "validNsmID i" "key \<noteq> []" "nonce \<noteq> Some []" "userData \<noteq> Some []"
  shows "read_request (json_att_text i key nonce userData) =
    (JsonForm, i, Inr (Attest \<lparr>PublicKey = Some key, Nonce = nonce, UserData = userData\<rparr>))"
proof -
  have "TrimSpace (json_att_text i key nonce userData) = json_att_text i key nonce userData"
    "json_att_text i key nonce userData \<noteq> []" "prefix ''{'' (json_att_text i key nonce userData)"
    unfolding json_att_text_def by (simp_all only: TrimSpace_object) simp_all
  with assms show ?thesis
    by (simp add: read_request_def Decode_att unmarshal_att json_call_def attest_call_def
        decodeRequiredHex_encode decodeOptionalHex_encode del: unmarshal_request.simps)
qed

text \<open>Words of the legacy form hold no white space.\<close>

lemma id_word: "validNsmID i \<Longrightarrow> plain_word i"
  by (auto simp: validNsmID_def plain_word_def list_all_iff id_char_def is_lower_def is_upper_def
      is_digit_def is_space_def)

lemma hex_word: "bs \<noteq> [] \<Longrightarrow> plain_word (EncodeToString bs)"
  using EncodeToString_hex_char [of bs]
  by (auto simp: plain_word_def list_all_iff hex_char_def is_digit_def is_space_def)

lemma arg_word: "s \<noteq> Some [] \<Longrightarrow> plain_word (legacy_arg s)"
  using hex_word by (cases s) (auto simp: legacy_arg_def plain_word_def is_space_def)

lemma plain_word_ends:
  assumes "plain_word v" "plain_word w"
  shows "TrimSpace (v @ CHR '' '' # s @ CHR '' '' # w) = v @ CHR '' '' # s @ CHR '' '' # w"
proof -
  have "w \<noteq> [] \<and> v \<noteq> []" "ord (hd v) < 128 \<and> \<not> is_space (ord (hd v))"
    "ord (last w) < 128 \<and> \<not> is_space (ord (last w))"
    using assms by (auto simp: plain_word_def list_all_iff)
  then show ?thesis by (intro TrimSpace_id) (auto simp: last_append)
qed

lemma legacy_call_att:
  assumes "key \<noteq> []" "nonce \<noteq> Some []" "userData \<noteq> Some []"
  shows "legacy_call [''ATT'', EncodeToString key, legacy_arg nonce, legacy_arg userData] =
    Inr (Attest \<lparr>PublicKey = Some key, Nonce = nonce, UserData = userData\<rparr>)"
  using assms
  by (simp add: legacy_call_def attest_call_def decodeRequiredHex_encode decodeOptionalLegacyHex_encode)

lemma Fields_att:
  assumes "validNsmID i" "key \<noteq> []" "nonce \<noteq> Some []" "userData \<noteq> Some []"
  shows "Fields (legacy_att_text i key nonce userData) =
    [i, ''ATT'', EncodeToString key, legacy_arg nonce, legacy_arg userData]"
proof -
  have "plain_word ''ATT''" by (simp add: plain_word_def is_space_def)
  then show ?thesis
    using assms Fields_word_space [of "''ATT''"] Fields_word_space [OF id_word [OF assms(1)]]
      Fields_word_space [OF hex_word [OF assms(2)]] Fields_word_space [OF arg_word [OF assms(3)]]
      Fields_word [OF arg_word [OF assms(4)]]
    by (simp add: legacy_att_text_def)
qed

lemma read_legacy_att:
  assumes "validNsmID i" "key \<noteq> []" "nonce \<noteq> Some []" "userData \<noteq> Some []"
  shows "read_request (legacy_att_text i key nonce userData) =
    (LegacyForm, i, Inr (Attest \<lparr>PublicKey = Some key, Nonce = nonce, UserData = userData\<rparr>))"
proof -
  have "TrimSpace (legacy_att_text i key nonce userData) = legacy_att_text i key nonce userData"
    using plain_word_ends [OF id_word [OF assms(1)] arg_word [OF assms(4)],
        of "''ATT '' @ EncodeToString key @ '' '' @ legacy_arg nonce"]
    by (simp add: legacy_att_text_def)
  moreover have "legacy_att_text i key nonce userData \<noteq> []" "\<not> prefix ''{'' (legacy_att_text i key nonce userData)"
    using assms(1)
    by (cases i; auto simp: legacy_att_text_def validNsmID_def id_char_def is_lower_def is_upper_def is_digit_def)+
  ultimately show ?thesis
    by (simp add: read_request_def Fields_att [OF assms] assms(1) legacy_call_att [OF assms(2-4)])
qed

section \<open>Response texts\<close>

lemma parse_json_line:
  assumes "response_id i"
  shows "bs \<noteq> [] \<Longrightarrow> parse_json (json_ok_line i bs) = Some (JObj (ok_members i bs))"
    "error_code code \<Longrightarrow> parse_json (json_error_line i code) = Some (JObj (error_members i code))"
proof -
  have depth: "nesting (JObj (ok_members i bs)) \<le> maxNestingDepth"
    "nesting (JObj (error_members i code)) \<le> maxNestingDepth"
    by (rule flat_nesting, simp add: ok_members_def error_members_def)+
  have "plain_json (JObj (ok_members i bs))"
    using id_plain [OF assms] by (simp add: ok_members_def hex_plain plain_char_def)
  then show "bs \<noteq> [] \<Longrightarrow> parse_json (json_ok_line i bs) = Some (JObj (ok_members i bs))"
    using depth by (simp only: json_ok_render [OF assms] parse_json_render composite.simps
        simp_thms not_False_eq_True)
  assume code: "error_code code"
  then have "plain code"
    using all_mono [of reason_char code html_safe] char_classes(1) html_safe_plain
    by (simp add: error_code_def)
  then have "plain_json (JObj (error_members i code))"
    using id_plain [OF assms] by (simp add: error_members_def plain_char_def)
  then show "parse_json (json_error_line i code) = Some (JObj (error_members i code))"
    using depth by (simp only: json_error_render [OF assms code] parse_json_render composite.simps)
qed

lemma Fields_ok_line:
  assumes "validNsmID i" "bs \<noteq> []"
  shows "Fields (legacy_ok_line i bs) = [i, ''OK'', EncodeToString bs]"
proof -
  have "plain_word ''OK''" by (simp add: plain_word_def is_space_def)
  then show ?thesis
    using Fields_word_space [of "''OK''"] Fields_word_space [OF id_word [OF assms(1)]]
      Fields_word [OF hex_word [OF assms(2)]]
    by (simp add: legacy_ok_line_def)
qed

section \<open>Properties\<close>

text \<open>
  C16: The two request forms are equivalent: the JSON line and the legacy line of an attestation
  request reach the backend as the same call, with the key, the nonce and the user data byte for
  byte, an absent field as nil, and both are answered under the id of the request.
\<close>

theorem attestation_request_forms:
  assumes "validNsmID i" "key \<noteq> []" "nonce \<noteq> Some []" "userData \<noteq> Some []"
  shows "handleNsmLine b (json_att_text i key nonce userData) st =
      answer (json_error_line i) (json_ok_line i)
        (get_attestation b \<lparr>PublicKey = Some key, Nonce = nonce, UserData = userData\<rparr> st)
    \<and> handleNsmLine b (legacy_att_text i key nonce userData) st =
      answer (legacy_error_line i) (legacy_ok_line i)
        (get_attestation b \<lparr>PublicKey = Some key, Nonce = nonce, UserData = userData\<rparr> st)"
  using read_json_att [OF assms] read_legacy_att [OF assms] by (simp add: handle_respond respond_def)

text \<open>
  C23: A client gets the backend's bytes back: the JSON answer to a request parses as an object
  with the id, \<open>true\<close> and the lower-case hex text of the bytes, the legacy answer splits into the
  id, \<open>OK\<close> and the same text, and decoding the text gives the bytes.
\<close>

theorem success_lines_decode:
  assumes "validNsmID i" "bs \<noteq> []"
  shows "parse_json (json_ok_line i bs) =
      Some (JObj [(''id'', JStr i), (''ok'', JBool True), (''data'', JStr (EncodeToString bs))])
    \<and> Fields (legacy_ok_line i bs) = [i, ''OK'', EncodeToString bs]
    \<and> DecodeString (EncodeToString bs) = Some bs"
  using parse_json_line(1) [OF valid_response_id [OF assms(1)] assms(2)] Fields_ok_line [OF assms]
  by (simp add: ok_members_def)

text \<open>
  Every error answer of the JSON form parses as an object with the id, \<open>false\<close> and a code of
  letters, digits, hyphens, underscores and dots, whatever text the backend's error had.
\<close>

theorem error_lines_decode:
  assumes "validNsmID i \<or> i = []"
  shows "parse_json (json_error_line i (protocolError reason)) =
      Some (JObj [(''id'', JStr i), (''ok'', JBool False), (''error'', JStr (protocolError reason))])"
proof -
  have "response_id i" using assms by (auto simp: response_id_def)
  from parse_json_line(2) [OF this protocolError_code, of reason] show ?thesis
    by (simp add: error_members_def)
qed

section \<open>The device\<close>

text \<open>
  The ioctl is made only with a request of 1 to 4096 bytes, otherwise the device is not
  touched; a response that is returned came with errno 0, has the length the kernel stored, at
  most 12288 bytes, and consists of what the kernel wrote followed by zeros.
\<close>

theorem nsmIoctl_bounds:
  "if 1 \<le> length request \<and> length request \<le> 4096 then
     snd (nsmIoctl k fd request st) = snd (ioctl k fd nsmIoctlRequest (nsm_message request) st)
     \<and> (case fst (nsmIoctl k fd request st) of
          Inl e \<Rightarrow> e \<noteq> []
        | Inr resp \<Rightarrow>
            let r = fst (ioctl k fd nsmIoctlRequest (nsm_message request) st)
            in errno r = 0 \<and> length resp = unat (response_len r) \<and> length resp \<le> 12288
               \<and> resp = take (length resp) (written r @ replicate 12288 0))
   else snd (nsmIoctl k fd request st) = st \<and> isl (fst (nsmIoctl k fd request st))"
proof (cases "1 \<le> length request \<and> length request \<le> 4096")
  case False
  then show ?thesis by (auto simp: nsmIoctl_def nsmRequestMaxSize_def Suc_le_eq)
next
  case True
  obtain r st' where r: "ioctl k fd nsmIoctlRequest (nsm_message request) st = (r, st')" by force
  let ?buf = "take 12288 (written r @ replicate 12288 (0 :: byte))"
  have len: "length ?buf = 12288" by simp
  from True have "request \<noteq> []" by auto
  with True r have step: "nsmIoctl k fd request st =
      (if errno r \<noteq> 0 then
         (if errno r = EMSGSIZE then (Inl ''input too large'', st')
          else (Inl (''ioctl failed: '' @ errno_text k (errno r)), st'))
       else if response_len r > of_nat (length ?buf) then
         (Inl (''response too large ('' @ Itoa (unat (response_len r)) @ '' > '' @ Itoa (length ?buf) @ '')''), st')
       else (Inr (take (unat (response_len r)) ?buf), st'))"
    by (simp add: nsmIoctl_def nsmRequestMaxSize_def nsmResponseMaxSize_def)
  have "unat (response_len r) \<le> 12288" if "\<not> response_len r > of_nat (length ?buf)"
  proof -
    have "unat (of_nat (length ?buf) :: uint64) = 12288" unfolding len by simp
    with that show ?thesis by (simp only: word_less_nat_alt not_less)
  qed
  with True r step show ?thesis by (auto simp: min_def Let_def)
qed

text \<open>
  C29: A device response is accepted exactly if it is a map with the one entry \<open>Attestation\<close>, a map
  whose \<open>document\<close> is a non-empty byte string; that byte string is the result.
\<close>

theorem decodeAttestationResponse_iff:
  "decodeAttestationResponse cb resp = Inr document \<longleftrightarrow>
     document \<noteq> [] \<and>
     (\<exists>raw inner raw_document. UnmarshalMap cb resp = Inr [(''Attestation'', raw)]
        \<and> UnmarshalMap cb raw = Inr inner \<and> map_of inner ''document'' = Some raw_document
        \<and> UnmarshalBytes cb raw_document = Inr document)"
proof
  assume ok: "decodeAttestationResponse cb resp = Inr document"
  then obtain r where r: "decodeNsmResponse cb resp = Inr r"
    by (auto simp: decodeAttestationResponse_def rbind_Inr_iff)
  with ok have "r = AttestationDocument document"
    by (cases r) (auto simp: decodeAttestationResponse_def)
  with r obtain raw where raw: "UnmarshalMap cb resp = Inr [(''Attestation'', raw)]"
    "decode_bytes_field cb ''attestation'' ''attestation document'' ''document'' raw = Inr document"
    by (auto elim!: decodeNsmResponse_Inr)
  then show "document \<noteq> [] \<and>
     (\<exists>raw inner raw_document. UnmarshalMap cb resp = Inr [(''Attestation'', raw)]
        \<and> UnmarshalMap cb raw = Inr inner \<and> map_of inner ''document'' = Some raw_document
        \<and> UnmarshalBytes cb raw_document = Inr document)"
    by (auto simp: decode_bytes_field_def result_iff split: if_splits)
next
  assume "document \<noteq> [] \<and>
     (\<exists>raw inner raw_document. UnmarshalMap cb resp = Inr [(''Attestation'', raw)]
        \<and> UnmarshalMap cb raw = Inr inner \<and> map_of inner ''document'' = Some raw_document
        \<and> UnmarshalBytes cb raw_document = Inr document)"
  then show "decodeAttestationResponse cb resp = Inr document"
    by (auto simp: decodeAttestationResponse_def decodeNsmResponse_def decode_bytes_field_def)
qed

text \<open>
  C39: Three fields within their limits need not fit the device: if the encoded request is longer
  than 4096 bytes, which every encoding that embeds the fields verbatim is once they add up to
  more, the client is told \<open>backend_error\<close> and the device is not touched.
\<close>

theorem oversized_attestation:
  assumes "slice_len (PublicKey r) \<in> {1..2048}" "slice_len (Nonce r) \<le> 2048" "slice_len (UserData r) \<le> 2048"
    "encodeAttestationRequest cb r = Inr encoded" "4096 < length encoded"
  shows "answer (error_line fm i) (ok_line fm i) (get_attestation (NitroBackend cb k fd) r st) =
    (error_line fm i ''backend_error'', st)"
proof -
  let ?e = "''request too large ('' @ Itoa (length encoded) @ '' > '' @ Itoa nsmRequestMaxSize @ '')''"
  have "validateAttestationRequest r = Inr ()"
    using assms(1-3) by (simp add: validateAttestationRequest_def nsmFieldMaxSize_def)
  moreover have "nsmIoctl k fd encoded st = (Inl ?e, st)"
    using assms(5) by (auto simp: nsmIoctl_def nsmRequestMaxSize_def)
  ultimately have "GetAttestation cb k fd r st = (Inl ?e, st)"
    using assms(4) by (simp add: GetAttestation_def)
  moreover have "protocolError ?e = ''backend_error''" by (rule protocolError_blank) simp
  ultimately show ?thesis by (simp add: NitroBackend_def answer_def)
qed

section \<open>Examples\<close>

text \<open>
  A CBOR package with the encoding of RFC 8949 for the lengths that occur here and a decoder that
  rejects everything, and a kernel that counts its calls and fails.
\<close>

definition cbor_head :: "nat \<Rightarrow> nat \<Rightarrow> byte list" where
  "cbor_head major n =
     (if n < 24 then [of_nat (major * 32 + n)]
      else if n < 256 then [of_nat (major * 32 + 24), of_nat n]
      else [of_nat (major * 32 + 25), of_nat (n div 256), of_nat (n mod 256)])"

fun cbor_encode :: "cbor_value \<Rightarrow> byte list" where
  "cbor_encode CNull = [0xF6]"
| "cbor_encode (CText s) = cbor_head 3 (length s) @ map (\<lambda>c. of_nat (ord c)) s"
| "cbor_encode (CBytes bs) = cbor_head 2 (length bs) @ bs"
| "cbor_encode (CMap ms) =
     cbor_head 5 (length ms)
     @ concat (map (\<lambda>(k, v). cbor_head 3 (length k) @ map (\<lambda>c. of_nat (ord c)) k @ cbor_encode v) ms)"

definition sample_cbor :: cbor where
  "sample_cbor =
     \<lparr>Marshal = (\<lambda>v. Inr (cbor_encode v)), UnmarshalMap = (\<lambda>bs. Inl ''EOF''),
      UnmarshalBytes = (\<lambda>bs. Inl ''EOF''), UnmarshalText = (\<lambda>bs. Inl ''EOF'')\<rparr>"

definition sample_kernel :: "nat kernel" where
  "sample_kernel =
     \<lparr>open_device = (\<lambda>path n. (Inr 3, n)), close_fd = (\<lambda>fd n. n),
      ioctl = (\<lambda>fd cmd msg n. (\<lparr>errno = 19, written = [], response_len = 0\<rparr>, Suc n)),
      errno_text = (\<lambda>e. ''no such device'')\<rparr>"

lemma sample_id: "validNsmID ''req-1''"
  by (simp add: validNsmID_def nsmIDMaxSize_def id_char_def is_lower_def is_digit_def)

theorem attestation_request_forms_example:
  "handleNsmLine (NitroBackend sample_cbor sample_kernel 3) (legacy_att_text ''req-1'' [1, 2] None (Some [3])) 0 =
    (legacy_error_line ''req-1'' ''backend_error'', 1)"
proof -
  let ?r = "\<lparr>PublicKey = Some [1, 2], Nonce = None, UserData = Some [3]\<rparr>"
  have "GetAttestation sample_cbor sample_kernel 3 ?r 0 = (Inl (''ioctl failed: '' @ ''no such device''), 1)"
    by (simp add: GetAttestation_def validateAttestationRequest_def slice_len_def nsmFieldMaxSize_def
        encodeAttestationRequest_def sample_cbor_def cbor_slice_def cbor_head_def nsmIoctl_def
        nsmRequestMaxSize_def sample_kernel_def EMSGSIZE_def)
  moreover have "protocolError (''ioctl failed: '' @ ''no such device'') = ''backend_error''"
    by (rule protocolError_blank) simp
  moreover have "handleNsmLine (NitroBackend sample_cbor sample_kernel 3)
      (legacy_att_text ''req-1'' [1, 2] None (Some [3])) 0 =
    answer (legacy_error_line ''req-1'') (legacy_ok_line ''req-1'')
      (get_attestation (NitroBackend sample_cbor sample_kernel 3) ?r 0)"
    by (rule attestation_request_forms [OF sample_id, THEN conjunct2]) simp_all
  ultimately show ?thesis by (simp add: NitroBackend_def answer_def)
qed

theorem success_lines_decode_example:
  "parse_json (json_ok_line ''req-1'' [0xAB, 0x01]) =
    Some (JObj [(''id'', JStr ''req-1''), (''ok'', JBool True), (''data'', JStr (EncodeToString [0xAB, 0x01]))])"
  using success_lines_decode [OF sample_id, of "[0xAB, 0x01]"] by blast

theorem error_lines_decode_example:
  "parse_json (json_error_line ''req-1'' (protocolError ''ioctl failed'')) =
    Some (JObj [(''id'', JStr ''req-1''), (''ok'', JBool False), (''error'', JStr (protocolError ''ioctl failed''))])"
  by (rule error_lines_decode) (simp add: sample_id)

theorem oversized_attestation_example:
  "answer (error_line LegacyForm ''7'') (ok_line LegacyForm ''7'')
     (get_attestation (NitroBackend sample_cbor sample_kernel 3)
       \<lparr>PublicKey = Some (replicate 2048 1), Nonce = Some (replicate 2048 2), UserData = None\<rparr> 0) =
   (legacy_error_line ''7'' ''backend_error'', 0)"
proof -
  let ?r = "\<lparr>PublicKey = Some (replicate 2048 1), Nonce = Some (replicate 2048 2), UserData = None\<rparr>"
  obtain encoded where e: "encodeAttestationRequest sample_cbor ?r = Inr encoded" "4096 < length encoded"
    by (simp add: encodeAttestationRequest_def validateAttestationRequest_def slice_len_def
        nsmFieldMaxSize_def sample_cbor_def cbor_slice_def cbor_head_def)
  show ?thesis
    using oversized_attestation [of ?r sample_cbor encoded LegacyForm "''7''" sample_kernel 3 0] e
    by (simp add: slice_len_def)
qed

end
