(* ===== verification/Nsm_Server.thy ===== *)
theory Nsm_Server
  imports Nsm_Client
begin

text \<open>
  \<open>nsm.go\<close>, the server loop: \<open>readNsmLine\<close> over a \<open>bufio.Reader\<close> with its 4096-byte buffer and
  the 1 MiB limit, the recovery after a line that is too long, and the loop of \<open>nsmMode\<close>. The
  input is the bytes still to come and the way they end, so the split of the input into reads
  does not show; the loop is proved equal to a reading of the whole stream line by line.
\<close>

section \<open>Reading lines\<close>

datatype slice_err = NoErr | ErrBufferFull | EOF | ReadErr

text \<open>How the input ends: \<open>io.EOF\<close> or another error.\<close>

datatype stream_end = AtEOF | Broken

fun end_err :: "stream_end \<Rightarrow> slice_err" where
  "end_err AtEOF = EOF"
| "end_err Broken = ReadErr"

lemma end_err_not [simp]:
  "end_err e \<noteq> NoErr" "end_err e \<noteq> ErrBufferFull" "NoErr \<noteq> end_err e" "ErrBufferFull \<noteq> end_err e"
  by (cases e; simp)+

definition bufferSize :: nat where
  "bufferSize = 4096"

definition nsmLineMaxSize :: nat where
  "nsmLineMaxSize = 1048576"

text \<open>
  \<open>bufio.Reader.ReadSlice('\n')\<close> on the bytes still to come: up to the delimiter if it lies within
  one buffer, else a full buffer, else everything with the error that ends the input.
\<close>

definition ReadSlice :: "stream_end \<Rightarrow> string \<Rightarrow> string \<times> slice_err \<times> string" where
  "ReadSlice ending rest =
     (if lf \<in> set (take bufferSize rest) then
        (let n = Suc (length (takeWhile (\<lambda>c. c \<noteq> lf) rest)) in (take n rest, NoErr, drop n rest))
      else if bufferSize \<le> length rest then (take bufferSize rest, ErrBufferFull, drop bufferSize rest)
      else (rest, end_err ending, []))"

definition json_blank :: "char \<Rightarrow> bool" where
  "json_blank c \<longleftrightarrow> c = CHR '' '' \<or> c = CHR 0x09 \<or> c = cr \<or> c = lf"

text \<open>The first byte that is not blank, over the parts in turn, is an opening brace.\<close>

fun nsmLineLooksJSON :: "string list \<Rightarrow> bool" where
  "nsmLineLooksJSON [] = False"
| "nsmLineLooksJSON (part # parts) =
     (case dropWhile json_blank part of
        [] \<Rightarrow> nsmLineLooksJSON parts
      | c # _ \<Rightarrow> c = CHR ''{'')"

function discardNsmLineRemainder :: "stream_end \<Rightarrow> slice_err \<Rightarrow> string \<Rightarrow> string" where
  "discardNsmLineRemainder ending err rest =
     (if err = ErrBufferFull then
        (case ReadSlice ending rest of (_, err', rest') \<Rightarrow> discardNsmLineRemainder ending err' rest')
      else rest)"
  by pat_completeness auto
termination
  by (relation "measure (\<lambda>(ending, err, rest). (if err = ErrBufferFull then 1 else 0) + length rest)")
    (auto simp: ReadSlice_def bufferSize_def Let_def split: if_splits)

declare discardNsmLineRemainder.simps [simp del]

datatype line_result = Line string | LineTooLarge bool | EndOfInput | InputError

function read_line :: "stream_end \<Rightarrow> string \<Rightarrow> string \<Rightarrow> line_result \<times> string" where
  "read_line ending line rest =
     (case ReadSlice ending rest of
        (fragment, err, rest') \<Rightarrow>
          if length line + length fragment > nsmLineMaxSize then
            (LineTooLarge (nsmLineLooksJSON [line, fragment]), discardNsmLineRemainder ending err rest')
          else
            (case err of
               NoErr \<Rightarrow> (Line (TrimRight (line @ fragment) [cr, lf]), rest')
             | ErrBufferFull \<Rightarrow> read_line ending (line @ fragment) rest'
             | EOF \<Rightarrow> (if line @ fragment = [] then (EndOfInput, rest') else (Line (line @ fragment), rest'))
             | ReadErr \<Rightarrow> (InputError, rest')))"
  by pat_completeness auto
termination
  by (relation "measure (\<lambda>(ending, line, rest). length rest)")
    (auto simp: ReadSlice_def bufferSize_def Let_def split: if_splits)

declare read_line.simps [simp del]

definition readNsmLine :: "stream_end \<Rightarrow> string \<Rightarrow> line_result \<times> string" where
  "readNsmLine ending rest = read_line ending [] rest"

section \<open>The whole stream\<close>

text \<open>The line at the start of the stream, with its delimiter if it has one, and what follows.\<close>

definition first_line :: "string \<Rightarrow> string" where
  "first_line s = take (Suc (length (takeWhile (\<lambda>c. c \<noteq> lf) s))) s"

definition after_line :: "string \<Rightarrow> string" where
  "after_line s = drop (Suc (length (takeWhile (\<lambda>c. c \<noteq> lf) s))) s"

text \<open>
  What a line of the stream is read as: the limit counts the delimiter, and the look of a long
  line is decided by its first 1 MiB and one buffer more.
\<close>

definition line_item :: "stream_end \<Rightarrow> string \<Rightarrow> line_result" where
  "line_item ending l =
     (if length l > nsmLineMaxSize then
        LineTooLarge (nsmLineLooksJSON [take (nsmLineMaxSize + bufferSize) l])
      else if lf \<in> set l then Line (TrimRight l [cr, lf])
      else if ending = Broken then InputError
      else if l = [] then EndOfInput
      else Line l)"

lemma takeWhile_no_lf: "lf \<notin> set s \<Longrightarrow> takeWhile (\<lambda>c. c \<noteq> lf) s = s"
  by (auto simp: takeWhile_eq_all_conv)

lemma takeWhile_lf: "lf \<notin> set a \<Longrightarrow> takeWhile (\<lambda>c. c \<noteq> lf) (a @ lf # b) = a"
  by (induction a) auto

lemma line_no_lf: "lf \<notin> set s \<Longrightarrow> first_line s = s \<and> after_line s = []"
  by (simp add: first_line_def after_line_def takeWhile_no_lf)

lemma line_with_lf: "lf \<notin> set a \<Longrightarrow> first_line (a @ lf # b) = a @ [lf] \<and> after_line (a @ lf # b) = b"
  by (simp only: first_line_def after_line_def takeWhile_lf simp_thms not_False_eq_True) simp

lemma split_lf: "lf \<in> set s \<Longrightarrow> \<exists>a b. s = a @ lf # b \<and> lf \<notin> set a"
  by (rule split_list_first)

lemma ReadSlice_delim:
  assumes "lf \<notin> set a" "length a < bufferSize"
  shows "ReadSlice ending (a @ lf # b) = (a @ [lf], NoErr, b)"
proof -
  have "lf \<in> set (take bufferSize (a @ lf # b))"
    using assms(2) by (auto simp: take_Cons' )
  moreover have "take (Suc (length a)) (a @ lf # b) = a @ [lf]" "drop (Suc (length a)) (a @ lf # b) = b"
    by simp_all
  ultimately show ?thesis by (simp only: ReadSlice_def takeWhile_lf [OF assms(1)] if_True Let_def)
qed

text \<open>The three things a read of the buffer can find.\<close>

lemma ReadSlice_cases:
  obtains (delim) a b where "rest = a @ lf # b" "lf \<notin> set a" "length a < bufferSize"
      "ReadSlice ending rest = (a @ [lf], NoErr, b)"
    | (full) a b where "rest = a @ b" "lf \<notin> set a" "length a = bufferSize"
      "ReadSlice ending rest = (a, ErrBufferFull, b)"
    | (final) "lf \<notin> set rest" "length rest < bufferSize" "ReadSlice ending rest = (rest, end_err ending, [])"
proof (cases "lf \<in> set (take bufferSize rest)")
  case True
  then obtain a t where t: "take bufferSize rest = a @ lf # t" "lf \<notin> set a" using split_lf by blast
  have rest: "rest = a @ lf # t @ drop bufferSize rest"
    using append_take_drop_id [of bufferSize rest] by (simp add: t(1))
  have "length (take bufferSize rest) \<le> bufferSize" by simp
  then have len: "length a < bufferSize" by (simp add: t(1))
  show ?thesis
    using delim [OF rest t(2) len] ReadSlice_delim [OF t(2) len, of ending "t @ drop bufferSize rest"]
    by (simp only: rest [symmetric])
next
  case False
  show ?thesis
  proof (cases "bufferSize \<le> length rest")
    case True
    with False show ?thesis
      by (intro full [of "take bufferSize rest" "drop bufferSize rest"]) (simp_all add: ReadSlice_def)
  next
    case short: False
    with False final show ?thesis by (simp add: ReadSlice_def)
  qed
qed

lemma line_append:
  assumes "lf \<notin> set a"
  shows "after_line (a @ b) = after_line b" "first_line (a @ b) = a @ first_line b"
proof -
  have "after_line (a @ b) = after_line b \<and> first_line (a @ b) = a @ first_line b"
  proof (cases "lf \<in> set b")
    case True
    then obtain u v where "b = u @ lf # v" "lf \<notin> set u" using split_lf by blast
    with assms line_with_lf [of "a @ u" v] line_with_lf [of u v] show ?thesis by simp
  next
    case False
    with assms line_no_lf [of "a @ b"] line_no_lf [of b] show ?thesis by simp
  qed
  then show "after_line (a @ b) = after_line b" "first_line (a @ b) = a @ first_line b" by auto
qed

lemma discard_other [simp]: "err \<noteq> ErrBufferFull \<Longrightarrow> discardNsmLineRemainder ending err rest = rest"
  by (simp add: discardNsmLineRemainder.simps)

lemma discard_rest: "discardNsmLineRemainder ending ErrBufferFull rest = after_line rest"
proof (induction "length rest" arbitrary: rest rule: less_induct)
  case less
  have step: "discardNsmLineRemainder ending ErrBufferFull rest =
      (case ReadSlice ending rest of (_, err', rest') \<Rightarrow> discardNsmLineRemainder ending err' rest')"
    by (subst discardNsmLineRemainder.simps) simp
  show ?case
  proof (cases ending rest rule: ReadSlice_cases)
    case (delim a b)
    with step line_with_lf [of a b] show ?thesis by simp
  next
    case (full a b)
    then have "length b < length rest" by (simp add: bufferSize_def)
    with full step less [of b] line_append(1) [of a b] show ?thesis by simp
  next
    case final
    with step line_no_lf [of rest] show ?thesis by simp
  qed
qed

lemma looks_two: "nsmLineLooksJSON [a, b] = nsmLineLooksJSON [a @ b]"
proof (cases "dropWhile json_blank a")
  case Nil
  then have "\<forall>c \<in> set a. json_blank c" by (simp add: dropWhile_eq_Nil_conv)
  then have "dropWhile json_blank (a @ b) = dropWhile json_blank b" by (simp add: dropWhile_append2)
  with Nil show ?thesis by (simp del: dropWhile_eq_Nil_conv)
next
  case (Cons c t)
  then have "\<exists>x \<in> set a. \<not> json_blank x" by (metis dropWhile_eq_Nil_conv list.distinct(1))
  with Cons show ?thesis by (auto simp: dropWhile_append1)
qed

lemma sizes: "bufferSize dvd nsmLineMaxSize" "0 < bufferSize" "bufferSize \<le> nsmLineMaxSize"
  by (simp_all add: bufferSize_def nsmLineMaxSize_def)

text \<open>With whole buffers read, one more buffer fits unless the limit is reached exactly.\<close>

lemma whole_buffers:
  assumes "bufferSize dvd n" "n \<le> nsmLineMaxSize" "n \<noteq> nsmLineMaxSize"
  shows "n + bufferSize \<le> nsmLineMaxSize"
proof -
  obtain k where "n = bufferSize * k" using assms(1) by (auto simp: dvd_def)
  with assms(2,3) show ?thesis by (simp add: bufferSize_def nsmLineMaxSize_def)
qed

lemma read_line_stream:
  "bufferSize dvd length line \<Longrightarrow> length line \<le> nsmLineMaxSize \<Longrightarrow> lf \<notin> set line \<Longrightarrow>
   read_line ending line rest = (line_item ending (line @ first_line rest), after_line rest)"
proof (induction "length rest" arbitrary: line rest rule: less_induct)
  case less
  note step = read_line.simps [of ending line rest]
  show ?case
  proof (cases ending rest rule: ReadSlice_cases)
    case (delim a b)
    have short: "length (line @ a @ [lf]) \<le> nsmLineMaxSize + bufferSize" using less.prems(2) delim(3) by simp
    from delim line_with_lf [of a b] step short looks_two [of line "a @ [lf]"] show ?thesis
      by (auto simp: line_item_def)
  next
    case (full a b)
    show ?thesis
    proof (cases "length line = nsmLineMaxSize")
      case True
      have "length (line @ a) = nsmLineMaxSize + bufferSize" using True full(3) by simp
      then have "take (nsmLineMaxSize + bufferSize) (line @ a @ first_line b) = line @ a"
        by (metis append_assoc append_eq_conv_conj)
      with full True step line_append [OF full(2), of b] sizes(2) looks_two [of line a] discard_rest [of ending b]
      moreover have "a \<noteq> []" using full(3) sizes(2) by auto
      ultimately show ?thesis by (simp add: line_item_def del: nsmLineLooksJSON.simps)
    next
      case False
      then have fits: "length (line @ a) \<le> nsmLineMaxSize"
        using whole_buffers [OF less.prems(1,2)] full(3) by simp
      then have "read_line ending line rest = read_line ending (line @ a) b"
        using full step by simp
      also have "\<dots> = (line_item ending ((line @ a) @ first_line b), after_line b)"
        using less.prems full fits sizes(2) by (intro less.hyps) simp_all
      finally show ?thesis using full(1) line_append [OF full(2), of b] by simp
    qed
  next
    case final
    from final(2) less.prems(2) have "length (line @ rest) \<le> nsmLineMaxSize + bufferSize" by simp
    with final step line_no_lf [OF final(1)] less.prems(3) looks_two [of line rest] show ?thesis
      by (cases ending) (auto simp: line_item_def)
  qed
qed

lemma readNsmLine_stream: "readNsmLine ending rest = (line_item ending (first_line rest), after_line rest)"
  using read_line_stream [of "[]" ending rest] by (simp add: readNsmLine_def)

section \<open>The server loop\<close>

definition too_large_line :: "bool \<Rightarrow> string" where
  "too_large_line jsonLike =
     (if jsonLike then json_error_line [] ''line_too_large'' else ''0 ERR line_too_large'')"

lemma reading_consumes:
  "readNsmLine ending rest = (Line l, rest') \<Longrightarrow> length rest' < length rest"
  "readNsmLine ending rest = (LineTooLarge j, rest') \<Longrightarrow> length rest' < length rest"
proof -
  have "length (after_line rest) < length rest" if "rest \<noteq> []"
    using that by (simp add: after_line_def)
  moreover have "line_item ending (first_line []) \<in> {EndOfInput, InputError}"
    by (simp add: first_line_def line_item_def)
  ultimately show
    "readNsmLine ending rest = (Line l, rest') \<Longrightarrow> length rest' < length rest"
    "readNsmLine ending rest = (LineTooLarge j, rest') \<Longrightarrow> length rest' < length rest"
    by (cases "rest = []"; auto simp: readNsmLine_stream)+
qed

text \<open>
  The loop of \<open>nsmMode\<close>: all bytes written to stdout, and the state the backend ends in. Failures
  of stdout are ignored by the code. The loop ends with the input.
\<close>

function nsmMode :: "'b NsmBackend \<Rightarrow> stream_end \<Rightarrow> string \<Rightarrow> 'b \<Rightarrow> string \<times> 'b" where
  "nsmMode backend ending rest st =
     (case readNsmLine ending rest of
        (Line l, rest') \<Rightarrow>
          (case handleNsmLine backend l st of
             (response, st1) \<Rightarrow>
               (case nsmMode backend ending rest' st1 of (out, st2) \<Rightarrow> (response @ lf # out, st2)))
      | (LineTooLarge jsonLike, rest') \<Rightarrow>
          (case nsmMode backend ending rest' st of
             (out, st2) \<Rightarrow> (too_large_line jsonLike @ lf # out, st2))
      | (EndOfInput, _) \<Rightarrow> ([], st)
      | (InputError, _) \<Rightarrow> ([], st))"
  by pat_completeness auto
termination
  by (relation "measure (\<lambda>(backend, ending, rest, st). length rest)")
    (auto dest: reading_consumes [OF sym])

declare nsmMode.simps [simp del]

text \<open>The reference: the lines of the input one by one, each with its response.\<close>

fun chop :: "string \<Rightarrow> string list" where
  "chop [] = []"
| "chop (c # s) =
     (if c = lf then [c] # chop s else case chop s of [] \<Rightarrow> [[c]] | p # ps \<Rightarrow> (c # p) # ps)"

fun answer_item :: "'b NsmBackend \<Rightarrow> line_result \<Rightarrow> 'b \<Rightarrow> string \<times> 'b" where
  "answer_item b (Line l) st = handleNsmLine b l st"
| "answer_item b (LineTooLarge jsonLike) st = (too_large_line jsonLike, st)"
| "answer_item b _ st = ([], st)"

fun answer_items :: "'b NsmBackend \<Rightarrow> line_result list \<Rightarrow> 'b \<Rightarrow> string list \<times> 'b" where
  "answer_items b [] st = ([], st)"
| "answer_items b (x # xs) st =
     (case answer_item b x st of
        (response, st1) \<Rightarrow>
          (case answer_items b xs st1 of (responses, st2) \<Rightarrow> (response # responses, st2)))"

definition unlines :: "string list \<Rightarrow> string" where
  "unlines ls = concat (map (\<lambda>l. l @ [lf]) ls)"

lemma unlines_simps [simp]: "unlines [] = []" "unlines (l # ls) = l @ lf # unlines ls"
  by (simp_all add: unlines_def)

lemma chop_no_lf: "lf \<notin> set s \<Longrightarrow> s \<noteq> [] \<Longrightarrow> chop s = [s]"
proof (induction s)
  case (Cons c s)
  then show ?case by (cases "s = []") auto
qed simp

lemma chop_lf: "lf \<notin> set a \<Longrightarrow> chop (a @ lf # b) = (a @ [lf]) # chop b"
  by (induction a) auto

lemma chop_first: "s \<noteq> [] \<Longrightarrow> chop s = first_line s # chop (after_line s)"
proof (cases "lf \<in> set s")
  case True
  then obtain a b where "s = a @ lf # b" "lf \<notin> set a" using split_lf by blast
  then show ?thesis using line_with_lf [of a b] chop_lf [of a b] by simp
next
  case False
  assume "s \<noteq> []"
  with False show ?thesis using line_no_lf [of s] chop_no_lf [of s] by simp
qed

lemma first_line_not_Nil: "s \<noteq> [] \<Longrightarrow> first_line s \<noteq> []"
  by (simp add: first_line_def)

lemma item_at_eof: "l \<noteq> [] \<Longrightarrow> (\<exists>x. line_item AtEOF l = Line x) \<or> (\<exists>j. line_item AtEOF l = LineTooLarge j)"
  by (simp add: line_item_def)

lemma nsmMode_items:
  "nsmMode b AtEOF input st =
    (case answer_items b (map (line_item AtEOF) (chop input)) st of (rs, st') \<Rightarrow> (unlines rs, st'))"
proof (induction "length input" arbitrary: input st rule: less_induct)
  case less
  show ?case
  proof (cases "input = []")
    case True
    then show ?thesis
      by (simp add: nsmMode.simps [of b AtEOF "[]"] readNsmLine_stream first_line_def after_line_def line_item_def)
  next
    case False
    then have "length (after_line input) < length input" by (simp add: after_line_def)
    note ih = less.hyps [OF this]
    show ?thesis
      using item_at_eof [OF first_line_not_Nil [OF False]]
      by (auto simp: nsmMode.simps [of b AtEOF input] readNsmLine_stream chop_first [OF False] ih
          split: prod.split)
  qed
qed

lemma too_large_printable: "list_all printable (too_large_line j)"
proof -
  have "error_code ''line_too_large''" by (simp add: error_code_def reason_char_def is_lower_def)
  moreover have "response_id []" by (simp add: response_id_def)
  ultimately have "list_all printable (error_line JsonForm [] ''line_too_large'')" by (intro lines_printable)
  then show ?thesis by (simp add: too_large_line_def printable_def)
qed

lemma answer_item_printable: "list_all printable (fst (answer_item b x st))"
proof (cases x)
  case (Line l)
  obtain fm i r where r: "read_request l = (fm, i, r)" by (metis prod_cases3)
  have "list_all printable (fst (handleNsmLine b l st))"
    unfolding handle_respond r
    by (intro respond_printable read_request_shape(1) [OF r])
      (auto dest: read_request_shape(2) [OF r] intro: request_codes_ok)
  with Line show ?thesis by simp
qed (simp_all add: too_large_printable)

lemma answer_items_shape:
  "answer_items b xs st = (rs, st') \<Longrightarrow> length rs = length xs \<and> list_all (list_all printable) rs"
proof (induction xs arbitrary: st rs st')
  case (Cons x xs)
  then show ?case using answer_item_printable [of b x st] by (auto split: prod.splits)
qed simp

text \<open>
  C7: Reading through the 4096-byte buffer is reading the stream line by line: a line of at most
  1 MiB, delimiter included, is returned whole without its line end, a longer one is reported
  once and skipped up to its end, and the next read starts at the next line.
\<close>

theorem readNsmLine_reads_lines: "readNsmLine ending rest = (line_item ending (first_line rest), after_line rest)"
  by (rule readNsmLine_stream)

text \<open>
  C3: The server writes exactly one line of printable ASCII for each line of its input, whatever the
  lines hold and the backend does.
\<close>

theorem nsmMode_one_response_per_line:
  "\<exists>responses. fst (nsmMode b AtEOF input st) = unlines responses
     \<and> Split (fst (nsmMode b AtEOF input st)) lf = responses @ [[]]
     \<and> length responses = length (chop input) \<and> list_all (list_all printable) responses"
proof -
  obtain rs st' where rs: "answer_items b (map (line_item AtEOF) (chop input)) st = (rs, st')" by force
  have shape: "length rs = length (chop input)" "list_all (list_all printable) rs"
    using answer_items_shape [OF rs] by simp_all
  have "\<not> printable lf" by (simp add: printable_def)
  with shape(2) have "\<forall>r \<in> set rs. lf \<notin> set r" by (auto simp: list_all_iff)
  then have "Split (unlines rs) lf = rs @ [[]]"
    using Split_join_lines [of rs lf "[]"] by (simp add: unlines_def)
  with rs shape show ?thesis by (intro exI [of _ rs]) (simp add: nsmMode_items)
qed

text \<open>The responses to request lines in order, over the state of the backend.\<close>

fun session :: "'b NsmBackend \<Rightarrow> string list \<Rightarrow> 'b \<Rightarrow> string list \<times> 'b" where
  "session b [] st = ([], st)"
| "session b (l # ls) st =
     (case handleNsmLine b (TrimRight l [cr, lf]) st of
        (response, st1) \<Rightarrow> (case session b ls st1 of (responses, st2) \<Rightarrow> (response # responses, st2)))"

lemma answer_items_session:
  "list_all (\<lambda>l. lf \<notin> set l \<and> length l < nsmLineMaxSize) ls \<Longrightarrow>
   answer_items b (map (line_item AtEOF) (chop (unlines ls))) st = session b ls st"
proof (induction ls arbitrary: st)
  case (Cons l ls)
  then have "line_item AtEOF (l @ [lf]) = Line (TrimRight l [cr, lf])" by (simp add: line_item_def)
  with Cons show ?case by (simp add: chop_lf)
qed simp

text \<open>
  C25: A session is served in order: for request lines shorter than 1 MiB the output is the response of
  \<open>handleNsmLine\<close> to each line without its carriage return, each made in the state that the lines
  before it left the backend in.
\<close>

theorem nsmMode_session:
  assumes "list_all (\<lambda>l. lf \<notin> set l \<and> length l < nsmLineMaxSize) ls"
  shows "nsmMode b AtEOF (unlines ls) st = (unlines (fst (session b ls st)), snd (session b ls st))"
  using answer_items_session [OF assms, of b st] by (simp add: nsmMode_items split: prod.split)

theorem nsmMode_session_example:
  "nsmMode (NitroBackend sample_cbor sample_kernel 3) AtEOF (unlines [''1 RND'' @ [cr], ''2 XYZ'']) 0 =
    (unlines (fst (session (NitroBackend sample_cbor sample_kernel 3) [''1 RND'' @ [cr], ''2 XYZ''] 0)),
     snd (session (NitroBackend sample_cbor sample_kernel 3) [''1 RND'' @ [cr], ''2 XYZ''] 0))"
  by (rule nsmMode_session) (simp add: nsmLineMaxSize_def)

end
