(* ===== verification/Nsm_Process.thy ===== *)
theory Nsm_Process
  imports Nsm_Server
begin

text \<open>
  \<open>nsm.go\<close>, the subcommand \<open>argonaut nsm\<close> as a process: the device is opened, the server loop runs on
  stdin and stdout, and the deferred \<open>Close\<close> releases the device. A kernel that records its calls
  shows which system calls the process makes.
\<close>

section \<open>The process\<close>

text \<open>\<open>log.Fatalf\<close> before the loop, or the bytes written to stdout until the input ended.\<close>

datatype nsm_end = NsmFatal string | NsmDone string

definition nsm_process :: "cbor \<Rightarrow> 'k kernel \<Rightarrow> stream_end \<Rightarrow> string \<Rightarrow> 'k \<Rightarrow> nsm_end \<times> 'k" where
  "nsm_process cb k ending input st =
     (case OpenNsm k st of
        (Inl e, st1) \<Rightarrow> (NsmFatal (''[nsm] '' @ e), st1)
      | (Inr fd, st1) \<Rightarrow>
          (case nsmMode (NitroBackend cb k fd) ending input st1 of
             (out, st2) \<Rightarrow> (NsmDone out, Close k fd st2)))"

section \<open>Recording\<close>

datatype device_call = OpenCall string | IoctlCall nat uint32 nsmMessage | CloseCall nat

definition recording :: "'k kernel \<Rightarrow> ('k \<times> device_call list) kernel" where
  "recording k =
     \<lparr>open_device = (\<lambda>path (st, l). case open_device k path st of (r, st') \<Rightarrow> (r, (st', l @ [OpenCall path]))),
      close_fd = (\<lambda>fd (st, l). (close_fd k fd st, l @ [CloseCall fd])),
      ioctl = (\<lambda>fd cmd msg (st, l). case ioctl k fd cmd msg st of (r, st') \<Rightarrow> (r, (st', l @ [IoctlCall fd cmd msg]))),
      errno_text = errno_text k\<rparr>"

text \<open>The ioctls that the device accepts from this program: the NSM command with 1 to 4096 bytes.\<close>

fun device_ioctl :: "nat \<Rightarrow> device_call \<Rightarrow> bool" where
  "device_ioctl fd (IoctlCall fd' cmd msg) \<longleftrightarrow>
     fd' = fd \<and> cmd = nsmIoctlRequest
     \<and> 1 \<le> length (Base (Request msg)) \<and> length (Base (Request msg)) \<le> 4096
     \<and> Len (Request msg) = of_nat (length (Base (Request msg)))
     \<and> length (Base (Response msg)) = 12288 \<and> Len (Response msg) = 12288"
| "device_ioctl fd _ = False"

text \<open>
  A computation on the recording kernel: it does what it does on the kernel itself, and makes at
  most \<open>n\<close> calls, all of them ioctls on \<open>fd\<close>.
\<close>

definition recorded ::
  "nat \<Rightarrow> nat \<Rightarrow> 'a \<times> 'k \<Rightarrow> device_call list \<Rightarrow> 'a \<times> ('k \<times> device_call list) \<Rightarrow> bool"
where
  "recorded fd n r l rr \<longleftrightarrow>
     (\<exists>cs. rr = (fst r, (snd r, l @ cs)) \<and> list_all (device_ioctl fd) cs \<and> length cs \<le> n)"

lemma recorded_none: "recorded fd n (x, st) l (x, (st, l))"
  by (simp add: recorded_def)

lemma recorded_then:
  assumes "recorded fd m (x, st) l (x', sl)" "\<And>l'. recorded fd n (y, st') l' (g (st, l'))"
  shows "recorded fd (m + n) (y, st') l (g sl)"
proof -
  from assms(1) obtain cs where cs: "sl = (st, l @ cs)" "list_all (device_ioctl fd) cs" "length cs \<le> m"
    by (auto simp: recorded_def)
  from assms(2) [of "l @ cs"] cs show ?thesis by (fastforce simp: recorded_def)
qed

lemma nsmIoctl_recorded: "recorded fd 1 (nsmIoctl k fd req st) l (nsmIoctl (recording k) fd req (st, l))"
proof (cases "req = [] \<or> length req > nsmRequestMaxSize")
  case True
  then show ?thesis by (auto simp: nsmIoctl_def recorded_none)
next
  case False
  obtain r st' where r: "ioctl k fd nsmIoctlRequest (nsm_message req) st = (r, st')" by force
  have call: "device_ioctl fd (IoctlCall fd nsmIoctlRequest (nsm_message req))"
    using False by (auto simp: nsm_message_def nsmRequestMaxSize_def nsmResponseMaxSize_def Suc_le_eq)
  have "nsmIoctl (recording k) fd req (st, l) =
      (fst (nsmIoctl k fd req st), (snd (nsmIoctl k fd req st), l @ [IoctlCall fd nsmIoctlRequest (nsm_message req)]))"
    using False r by (simp add: nsmIoctl_def recording_def Let_def)
  with call show ?thesis by (auto simp: recorded_def)
qed

lemma GetAttestation_recorded:
  "recorded fd 1 (GetAttestation cb k fd req st) l (GetAttestation cb (recording k) fd req (st, l))"
proof (cases "validateAttestationRequest req")
  case (Inr u)
  show ?thesis
  proof (cases "encodeAttestationRequest cb req")
    case (Inr encoded)
    with \<open>validateAttestationRequest req = Inr u\<close> nsmIoctl_recorded [of fd k encoded st l] show ?thesis
      by (cases "nsmIoctl k fd encoded st") (auto simp: GetAttestation_def recorded_def split: sum.splits)
  qed (use Inr in \<open>simp add: GetAttestation_def recorded_none\<close>)
qed (simp add: GetAttestation_def recorded_none)

lemma GetRandom_recorded: "recorded fd 1 (GetRandom cb k fd st) l (GetRandom cb (recording k) fd (st, l))"
proof (cases "encodeGetRandomRequest cb")
  case (Inr encoded)
  with nsmIoctl_recorded [of fd k encoded st l] show ?thesis
    by (cases "nsmIoctl k fd encoded st") (auto simp: GetRandom_def recorded_def split: sum.splits)
qed (simp add: GetRandom_def recorded_none)

lemma handleNsmLine_recorded:
  "recorded fd 1 (handleNsmLine (NitroBackend cb k fd) line st) l
     (handleNsmLine (NitroBackend cb (recording k) fd) line (st, l))"
proof -
  obtain fm i r where r: "read_request line = (fm, i, r)" by (metis prod_cases3)
  show ?thesis
  proof (cases r)
    case (Inl code)
    then show ?thesis by (simp add: handle_respond r respond_def recorded_none)
  next
    case (Inr call)
    have "recorded fd 1 (serve (NitroBackend cb k fd) call st) l (serve (NitroBackend cb (recording k) fd) call (st, l))"
      using GetAttestation_recorded [of fd cb k _ st l] GetRandom_recorded [of fd cb k st l]
      by (cases call) (simp_all add: NitroBackend_def)
    with Inr show ?thesis
      by (auto simp: handle_respond r respond_def answer_def recorded_def split: prod.split sum.split)
  qed
qed

lemma nsmMode_recorded:
  "recorded fd (length (chop input)) (nsmMode (NitroBackend cb k fd) ending input st) l
     (nsmMode (NitroBackend cb (recording k) fd) ending input (st, l))"
proof (induction "length input" arbitrary: input st l rule: less_induct)
  case less
  note step = nsmMode.simps [of _ ending input] readNsmLine_stream
  show ?case
  proof (cases "input = []")
    case True
    then have "line_item ending (first_line input) \<in> {EndOfInput, InputError}"
      by (simp add: first_line_def line_item_def)
    then show ?thesis by (auto simp: step recorded_none)
  next
    case False
    then have "length (after_line input) < length input" by (simp add: after_line_def)
    note ih = less.hyps [OF this]
    have lines: "length (chop input) = 1 + length (chop (after_line input))" by (simp add: chop_first [OF False])
    show ?thesis
    proof (cases "line_item ending (first_line input)")
      case (Line line)
      let ?h = "\<lambda>k. handleNsmLine (NitroBackend cb k fd) line" and ?go = "\<lambda>k. nsmMode (NitroBackend cb k fd) ending (after_line input)"
      obtain resp st1 where h: "?h k st = (resp, st1)" by force
      obtain out st2 where go: "?go k st1 = (out, st2)" by force
      have "recorded fd 1 (resp, st1) l (?h (recording k) (st, l))"
        using handleNsmLine_recorded [of fd cb k line st l] h by simp
      then obtain sl where sl: "?h (recording k) (st, l) = (resp, sl)" "recorded fd 1 (resp, st1) l (resp, sl)"
        by (auto simp: recorded_def)
      have "recorded fd (1 + length (chop (after_line input))) (out, st2) l (?go (recording k) sl)"
        using ih [of st1] go by (intro recorded_then [OF sl(2)]) simp
      with sl h go Line lines show ?thesis by (auto simp: step recorded_def)
    next
      case (LineTooLarge j)
      with ih [of st l] lines show ?thesis by (auto simp: step recorded_def split: prod.split)
    qed (simp_all add: step recorded_none)
  qed
qed

section \<open>Properties\<close>

text \<open>
  C13: The process behaves the same with and without recording, and what it asks of the system is
  fixed: it opens \<open>/dev/nsm\<close> once; if that fails it exits and does nothing else; otherwise every ioctl
  goes to the opened descriptor, with the NSM command, a request of 1 to 4096 bytes and the response
  buffer of 12288 bytes, there is at most one for each input line, and the last call closes the
  descriptor.
\<close>

theorem nsm_process_calls:
  "case nsm_process cb k ending input st of
     (NsmFatal e, st') \<Rightarrow> nsm_process cb (recording k) ending input (st, []) = (NsmFatal e, st', [OpenCall ''/dev/nsm''])
   | (NsmDone out, st') \<Rightarrow>
       (\<exists>fd ioctls. nsm_process cb (recording k) ending input (st, []) =
            (NsmDone out, st', OpenCall ''/dev/nsm'' # ioctls @ [CloseCall fd])
          \<and> list_all (device_ioctl fd) ioctls \<and> length ioctls \<le> length (chop input)
          \<and> fst (open_device k ''/dev/nsm'' st) = Inr fd)"
proof -
  obtain r st1 where o: "open_device k ''/dev/nsm'' st = (r, st1)" by force
  have o': "open_device (recording k) ''/dev/nsm'' (st, []) = (r, (st1, [OpenCall ''/dev/nsm'']))"
    using o by (simp add: recording_def)
  show ?thesis
  proof (cases r)
    case (Inl e)
    then show ?thesis by (simp add: nsm_process_def OpenNsm_def nsmDevicePath_def o o')
  next
    case (Inr fd)
    obtain out st2 where run: "nsmMode (NitroBackend cb k fd) ending input st1 = (out, st2)" by force
    with nsmMode_recorded [of fd input cb k ending st1 "[OpenCall ''/dev/nsm'']"] obtain cs where
      "nsmMode (NitroBackend cb (recording k) fd) ending input (st1, [OpenCall ''/dev/nsm'']) =
        (out, (st2, OpenCall ''/dev/nsm'' # cs))" "list_all (device_ioctl fd) cs" "length cs \<le> length (chop input)"
      by (auto simp: recorded_def)
    with Inr o run show ?thesis
      by (auto simp: nsm_process_def OpenNsm_def nsmDevicePath_def o' Close_def recording_def)
  qed
qed

end
