(* ===== verification/Smoke_Nsm.thy ===== *)
theory Smoke_Nsm
  imports Nsm_Process
begin

text \<open>
  \<open>scripts/nitro-smoke/enclave-runner/main.go\<close>, the NSM test: a client of \<open>argonaut nsm\<close> that sends a
  request for random bytes and one for an attestation over the pipes of the child process and
  checks the answers. The child is an argument; the lemmas run the test against the model of the
  server.
\<close>

section \<open>Responses\<close>

record smoke_nsmResponse =
  nsm_ID :: string
  nsm_OK :: bool
  nsm_Data :: string
  nsm_Error :: string

definition smoke_response_keys :: "string list" where
  "smoke_response_keys = [''id'', ''ok'', ''data'', ''error'']"

fun unmarshal_bool :: "json \<Rightarrow> bool \<Rightarrow> bool option" where
  "unmarshal_bool JNull old = Some old"
| "unmarshal_bool (JBool b) old = Some b"
| "unmarshal_bool _ old = None"

definition smoke_response_member :: "string \<times> json \<Rightarrow> smoke_nsmResponse \<Rightarrow> smoke_nsmResponse option" where
  "smoke_response_member m r =
     (case m of (key, v) \<Rightarrow>
        (case field_of smoke_response_keys key of
           None \<Rightarrow> Some r
         | Some f \<Rightarrow>
             if f = ''id'' then map_option (\<lambda>s. r\<lparr>nsm_ID := s\<rparr>) (unmarshal_string v (nsm_ID r))
             else if f = ''ok'' then map_option (\<lambda>b. r\<lparr>nsm_OK := b\<rparr>) (unmarshal_bool v (nsm_OK r))
             else if f = ''data'' then map_option (\<lambda>s. r\<lparr>nsm_Data := s\<rparr>) (unmarshal_string v (nsm_Data r))
             else map_option (\<lambda>s. r\<lparr>nsm_Error := s\<rparr>) (unmarshal_string v (nsm_Error r))))"

fun smoke_response_members :: "(string \<times> json) list \<Rightarrow> smoke_nsmResponse \<Rightarrow> smoke_nsmResponse option" where
  "smoke_response_members [] r = Some r"
| "smoke_response_members (m # ms) r = Option.bind (smoke_response_member m r) (smoke_response_members ms)"

definition zero_nsmResponse :: smoke_nsmResponse where
  "zero_nsmResponse = \<lparr>nsm_ID = [], nsm_OK = False, nsm_Data = [], nsm_Error = []\<rparr>"

fun unmarshal_nsmResponse :: "json \<Rightarrow> smoke_nsmResponse option" where
  "unmarshal_nsmResponse JNull = Some zero_nsmResponse"
| "unmarshal_nsmResponse (JObj ms) = smoke_response_members ms zero_nsmResponse"
| "unmarshal_nsmResponse _ = None"

section \<open>One request\<close>

text \<open>What the child does with a line written to its stdin: the line it answers with, or none.\<close>

datatype child_reply = BrokenPipe | ReplyLine string | ReplyReadFailed | ReplyTimeout

type_synonym 's child = "string \<Rightarrow> 's \<Rightarrow> child_reply \<times> 's"

datatype nsm_test_error =
    StatFailed
  | PipeFailed
  | StartFailed
  | RequestWriteFailed
  | ContextDone
  | ReplyError
  | ReplyNotJSON string
  | NsmRefused string
  | BadRND smoke_nsmResponse
  | BadATT smoke_nsmResponse

definition nsmRequest :: "'s child \<Rightarrow> string \<Rightarrow> 's \<Rightarrow> (nsm_test_error + smoke_nsmResponse) \<times> 's" where
  "nsmRequest child request st =
     (case child (request @ [lf]) st of
        (BrokenPipe, st') \<Rightarrow> (Inl RequestWriteFailed, st')
      | (ReplyTimeout, st') \<Rightarrow> (Inl ContextDone, st')
      | (ReplyReadFailed, st') \<Rightarrow> (Inl ReplyError, st')
      | (ReplyLine line, st') \<Rightarrow>
          (case Option.bind (parse_json (TrimSpace line)) unmarshal_nsmResponse of
             None \<Rightarrow> (Inl (ReplyNotJSON (TrimSpace line)), st')
           | Some resp \<Rightarrow> if nsm_OK resp then (Inr resp, st') else (Inl (NsmRefused (nsm_Error resp)), st')))"

section \<open>The test\<close>

text \<open>A child process of the runner; \<open>None\<close> as long as it has not been started.\<close>

record runningProcess =
  cmd_process :: "nat option"

text \<open>\<open>stopProcess\<close>, with the processes killed so far.\<close>

definition stopProcess :: "runningProcess option \<Rightarrow> nat list \<Rightarrow> nat list" where
  "stopProcess proc killed =
     (case proc of
        None \<Rightarrow> killed
      | Some p \<Rightarrow> (case cmd_process p of None \<Rightarrow> killed | Some pid \<Rightarrow> killed @ [pid]))"

definition Repeat :: "string \<Rightarrow> nat \<Rightarrow> string" where
  "Repeat s n = concat (replicate n s)"

definition rnd_request :: string where
  \<open>rnd_request = ''{"id":"rnd","method":"RND"}''\<close>

definition att_request :: string where
  \<open>att_request = ''{"id":"att","method":"ATT","publicKey":"'' @ Repeat ''11'' 32
     @ ''","nonce":"aabbccdd","userData":"01020304"}''\<close>

text \<open>The two requests and the checks of their answers.\<close>

definition nsm_exchange :: "'s child \<Rightarrow> 's \<Rightarrow> (nsm_test_error + unit) \<times> 's" where
  "nsm_exchange child st =
     (case nsmRequest child rnd_request st of
        (Inl e, st1) \<Rightarrow> (Inl e, st1)
      | (Inr random, st1) \<Rightarrow>
          if nsm_ID random \<noteq> ''rnd'' \<or> \<not> nsm_OK random \<or> nsm_Data random = [] then (Inl (BadRND random), st1)
          else
            (case nsmRequest child att_request st1 of
               (Inl e, st2) \<Rightarrow> (Inl e, st2)
             | (Inr att, st2) \<Rightarrow>
                 if nsm_ID att \<noteq> ''att'' \<or> \<not> nsm_OK att \<or> length (nsm_Data att) < 64 then (Inl (BadATT att), st2)
                 else (Inr (), st2)))"

text \<open>
  \<open>testNSM\<close>: whether the device file and the pipes are there, the process if it starts, the result
  and the processes killed. The child is killed on every path after its start.
\<close>

definition testNSM ::
  "bool \<Rightarrow> bool \<Rightarrow> nat option \<Rightarrow> 's child \<Rightarrow> 's \<Rightarrow> nat list \<Rightarrow> (nsm_test_error + unit) \<times> 's \<times> nat list"
where
  "testNSM stat_ok pipes_ok started child st killed =
     (if \<not> stat_ok then (Inl StatFailed, st, killed)
      else if \<not> pipes_ok then (Inl PipeFailed, st, killed)
      else
        (case started of
           None \<Rightarrow> (Inl StartFailed, st, killed)
         | Some pid \<Rightarrow>
             (case nsm_exchange child st of
                (r, st') \<Rightarrow> (r, st', stopProcess (Some \<lparr>cmd_process = Some pid\<rparr>) killed))))"

section \<open>The requests at the server\<close>

text \<open>The server as the child: what it writes for a line, up to its first line end.\<close>

definition nsm_child :: "'b NsmBackend \<Rightarrow> 'b child" where
  "nsm_child b line st = (case nsmMode b AtEOF line st of (out, st') \<Rightarrow> (ReplyLine (first_line out), st'))"

lemma EncodeToString_replicate: "EncodeToString (replicate n b) = Repeat (hex_byte b) n"
  by (simp add: EncodeToString_def Repeat_def map_replicate_const)

definition smoke_attestation :: AttestationRequest where
  "smoke_attestation =
     \<lparr>PublicKey = Some (replicate 32 0x11), Nonce = Some [0xAA, 0xBB, 0xCC, 0xDD], UserData = Some [1, 2, 3, 4]\<rparr>"

lemma att_request_text:
  "att_request = json_att_text ''att'' (replicate 32 0x11) (Some [0xAA, 0xBB, 0xCC, 0xDD]) (Some [1, 2, 3, 4])"
proof -
  have "hex_byte 0x11 = ''11''" "EncodeToString [0xAA, 0xBB, 0xCC, 0xDD] = ''aabbccdd''"
    "EncodeToString [1, 2, 3, 4] = ''01020304''"
    by code_simp+
  then show ?thesis
    by (simp only: att_request_def json_att_text_def att_members_def hex_member_def EncodeToString_replicate)
      (simp add: member_text_def)
qed

definition rnd_members :: "(string \<times> json) list" where
  "rnd_members = [(''id'', JStr ''rnd''), (''method'', JStr ''RND'')]"

lemma rnd_request_text: "rnd_request = render (JObj rnd_members)"
  by (simp add: rnd_request_def rnd_members_def member_text_def)

lemma smoke_ids: "validNsmID ''rnd''" "validNsmID ''att''"
  by (simp_all add: validNsmID_def nsmIDMaxSize_def id_char_def is_lower_def)

lemma handle_rnd:
  "handleNsmLine b rnd_request st = answer (json_error_line ''rnd'') (json_ok_line ''rnd'') (get_random b st)"
proof -
  have "Decode rnd_request = Some (JObj rnd_members, [])"
    using Decode_render [of "JObj rnd_members" "[]"] flat_nesting [of rnd_members]
    by (simp add: rnd_request_text rnd_members_def plain_char_def)
  moreover have "unmarshal_request (JObj rnd_members) =
      Some \<lparr>req_id = ''rnd'', req_method = ''RND'', req_publicKey = [], req_nonce = [], req_userData = []\<rparr>"
    by (simp add: rnd_members_def request_member_def request_keys_def zero_request_def)
  moreover have "TrimSpace rnd_request = rnd_request"
    unfolding rnd_request_text by (rule TrimSpace_object)
  moreover have "rnd_request \<noteq> []" "prefix ''{'' rnd_request" by (simp_all add: rnd_request_def)
  ultimately have "read_request rnd_request = (JsonForm, ''rnd'', Inr Random)"
    using smoke_ids(1) by (simp add: read_request_def json_call_def del: unmarshal_request.simps)
  then show ?thesis by (simp add: handle_respond respond_def)
qed

lemma handle_att:
  "handleNsmLine b att_request st = answer (json_error_line ''att'') (json_ok_line ''att'') (get_attestation b smoke_attestation st)"
  using read_json_att [OF smoke_ids(2), of "replicate 32 0x11" "Some [0xAA, 0xBB, 0xCC, 0xDD]" "Some [1, 2, 3, 4]"]
  by (simp add: handle_respond respond_def att_request_text smoke_attestation_def)

lemma nsm_child_line:
  assumes "lf \<notin> set l" "TrimRight l [cr, lf] = l" "length l < nsmLineMaxSize"
  shows "nsm_child b (l @ [lf]) st = (case handleNsmLine b l st of (resp, st') \<Rightarrow> (ReplyLine (resp @ [lf]), st'))"
proof -
  obtain resp st' where h: "handleNsmLine b l st = (resp, st')" by force
  have "list_all printable resp" using answer_item_printable [of b "Line l" st] h by simp
  then have "lf \<notin> set resp" by (auto simp: list_all_iff printable_def)
  then have "first_line (unlines [resp]) = resp @ [lf]" using line_with_lf [of resp "[]"] by simp
  moreover have "nsmMode b AtEOF (unlines [l]) st = (unlines [resp], st')"
    using answer_items_session [of "[l]" b st] assms h by (simp add: nsmMode_items)
  ultimately show ?thesis by (simp add: nsm_child_def h)
qed

lemma TrimSpace_line: "TrimSpace (render (JObj ms) @ [lf]) = render (JObj ms)"
proof -
  obtain t where t: "render (JObj ms) = CHR ''{'' # t" by simp
  have "TrimSpace (render (JObj ms) @ [lf]) = trim_right_space (render (JObj ms) @ [lf])"
    by (simp only: TrimSpace_def t append_Cons) (simp add: is_space_def)
  also have "\<dots> = trim_right_space (render (JObj ms))"
    by (subst trim_right_space_snoc) (simp_all add: is_space_def del: render.simps)
  also have "\<dots> = TrimSpace (render (JObj ms))"
    by (simp only: TrimSpace_def t) (simp add: is_space_def)
  finally show ?thesis using TrimSpace_object by simp
qed

lemma smoke_field_of [simp]:
  "f \<in> set smoke_response_keys \<Longrightarrow> field_of smoke_response_keys f = Some f"
  by simp

lemma unmarshal_response:
  "unmarshal_nsmResponse (JObj (ok_members i bs)) =
     Some \<lparr>nsm_ID = i, nsm_OK = True, nsm_Data = EncodeToString bs, nsm_Error = []\<rparr>"
  "unmarshal_nsmResponse (JObj (error_members i code)) =
     Some \<lparr>nsm_ID = i, nsm_OK = False, nsm_Data = [], nsm_Error = code\<rparr>"
  by (simp_all add: ok_members_def error_members_def smoke_response_member_def smoke_response_keys_def
      zero_nsmResponse_def)

text \<open>What a request at the server yields, given what the backend does.\<close>

lemma nsmRequest_answer:
  assumes "handleNsmLine b l st = answer (json_error_line i) (json_ok_line i) (r, st')" "validNsmID i"
    "lf \<notin> set l" "TrimRight l [cr, lf] = l" "length l < nsmLineMaxSize" "r \<noteq> Inr []"
  shows "nsmRequest (nsm_child b) l st =
    (case r of
       Inl e \<Rightarrow> Inl (NsmRefused (protocolError e))
     | Inr bs \<Rightarrow> Inr \<lparr>nsm_ID = i, nsm_OK = True, nsm_Data = EncodeToString bs, nsm_Error = []\<rparr>, st')"
proof -
  note child = nsm_child_line [OF assms(3-5), of b st]
  note i = valid_response_id [OF assms(2)]
  show ?thesis
  proof (cases r)
    case (Inl e)
    have code: "error_code (protocolError e)" by simp
    from assms(1) Inl have "handleNsmLine b l st = (json_error_line i (protocolError e), st')"
      by (simp add: answer_def)
    with child Inl parse_json_line(2) [OF i code] show ?thesis
      by (simp add: nsmRequest_def json_error_render [OF i code] TrimSpace_line unmarshal_response
          del: render.simps unmarshal_nsmResponse.simps)
  next
    case (Inr bs)
    with assms(6) have bs: "bs \<noteq> []" by simp
    from assms(1) Inr have "handleNsmLine b l st = (json_ok_line i bs, st')" by (simp add: answer_def)
    with child Inr parse_json_line(1) [OF i bs] show ?thesis
      by (simp add: nsmRequest_def json_ok_render [OF i bs] TrimSpace_line unmarshal_response
          del: render.simps unmarshal_nsmResponse.simps)
  qed
qed

lemma request_lines:
  "lf \<notin> set rnd_request" "TrimRight rnd_request [cr, lf] = rnd_request" "length rnd_request < nsmLineMaxSize"
  "lf \<notin> set att_request" "TrimRight att_request [cr, lf] = att_request" "length att_request < nsmLineMaxSize"
  by (simp_all add: rnd_request_def att_request_def Repeat_def nsmLineMaxSize_def TrimRight_id length_concat sum_list_replicate)

lemma testNSM_server:
  "let b = NitroBackend cb k fd;
       run = testNSM True True (Some pid) (nsm_child b) st killed
   in (fst run = Inr () \<longleftrightarrow>
        (\<exists>random st1 doc st2. GetRandom cb k fd st = (Inr random, st1)
           \<and> GetAttestation cb k fd smoke_attestation st1 = (Inr doc, st2) \<and> 32 \<le> length doc))
      \<and> snd (snd run) = killed @ [pid]"
proof -
  let ?b = "NitroBackend cb k fd"
  obtain r st1 where r: "GetRandom cb k fd st = (r, st1)" by force
  obtain d st2 where d: "GetAttestation cb k fd smoke_attestation st1 = (d, st2)" by force
  have "r \<noteq> Inr []" using nitro.serve_bytes [of cb k fd Random st] r by (auto simp: NitroBackend_def)
  then have rnd: "nsmRequest (nsm_child ?b) rnd_request st =
      (case r of Inl e \<Rightarrow> Inl (NsmRefused (protocolError e))
       | Inr bs \<Rightarrow> Inr \<lparr>nsm_ID = ''rnd'', nsm_OK = True, nsm_Data = EncodeToString bs, nsm_Error = []\<rparr>, st1)"
    using handle_rnd [of ?b st] r smoke_ids(1) request_lines(1-3)
    by (intro nsmRequest_answer) (simp_all add: NitroBackend_def)
  have "d \<noteq> Inr []" using nitro.serve_bytes [of cb k fd "Attest smoke_attestation" st1] d
    by (auto simp: NitroBackend_def)
  then have att: "nsmRequest (nsm_child ?b) att_request st1 =
      (case d of Inl e \<Rightarrow> Inl (NsmRefused (protocolError e))
       | Inr bs \<Rightarrow> Inr \<lparr>nsm_ID = ''att'', nsm_OK = True, nsm_Data = EncodeToString bs, nsm_Error = []\<rparr>, st2)"
    using handle_att [of ?b st1] d smoke_ids(2) request_lines(4-6)
    by (intro nsmRequest_answer) (simp_all add: NitroBackend_def)
  have "(fst (nsm_exchange (nsm_child ?b) st) = Inr ()) \<longleftrightarrow>
      (\<exists>bs doc. r = Inr bs \<and> d = Inr doc \<and> 32 \<le> length doc)"
    using \<open>r \<noteq> Inr []\<close> rnd att by (cases r; cases d) (auto simp: nsm_exchange_def)
  with r d show ?thesis by (auto simp: testNSM_def stopProcess_def Let_def split: prod.split)
qed

section \<open>Properties\<close>

text \<open>
  C26: The smoke test of the NSM accepts exactly the devices that work: run against \<open>argonaut nsm\<close>, it
  passes if and only if the device returns random bytes and then, for the test's public key, nonce
  and user data, an attestation document of at least 32 bytes. Whatever the outcome, the child
  process has been killed.
\<close>

theorem nsm_smoke_test:
  "let b = NitroBackend cb k fd;
       run = testNSM True True (Some pid) (nsm_child b) st killed
   in (fst run = Inr () \<longleftrightarrow>
        (\<exists>random st1 doc st2. GetRandom cb k fd st = (Inr random, st1)
           \<and> GetAttestation cb k fd smoke_attestation st1 = (Inr doc, st2) \<and> 32 \<le> length doc))
      \<and> snd (snd run) = killed @ [pid]"
  by (rule testNSM_server)

end
