(* ===== verification/Host_Echo.thy ===== *)
theory Host_Echo
  imports Argo_Copy
begin

text \<open>
  \<open>scripts/nitro-smoke/host-echo/main.go\<close>: the server that stands for the external service in the
  smoke test. It answers one line per connection. \<open>bufio.Reader.ReadString\<close> is modelled on the
  results of the reads of the connection, so that the lemmas hold for every way in which the
  network splits the bytes.
\<close>

section \<open>Lines of a connection\<close>

definition byte_of :: "char \<Rightarrow> byte" where
  "byte_of c = of_nat (ord c)"

definition bytes_of :: "string \<Rightarrow> byte list" where
  "bytes_of = map byte_of"

lemma byte_of_inj: "inj byte_of"
  by (intro injI) (simp add: byte_of_def word_of_nat_eq_iff take_bit_eq_mod ord_less_256)

lemma bytes_of_inj [simp]: "bytes_of s = bytes_of t \<longleftrightarrow> s = t"
  by (simp add: bytes_of_def inj_map_eq_map byte_of_inj)

lemma bytes_of_append [simp]: "bytes_of (s @ t) = bytes_of s @ bytes_of t"
  by (simp add: bytes_of_def)

definition newline :: byte where
  "newline = byte_of lf"

lemma bytes_of_newline [simp]: "bytes_of [lf] = [newline]"
  by (simp add: bytes_of_def newline_def)

lemma newline_in [simp]: "newline \<in> set (bytes_of s) \<longleftrightarrow> lf \<in> set s"
  by (simp add: bytes_of_def newline_def inj_image_mem_iff byte_of_inj)

text \<open>
  \<open>ReadString('\n')\<close>: the bytes up to the delimiter, or what came before the error of a read; \<open>None\<close>
  while a read does not return. A read of a connection returns bytes or an error.
\<close>

fun ReadString :: "byte list \<Rightarrow> read_result list \<Rightarrow> (byte list \<times> io_err option) option" where
  "ReadString acc [] = None"
| "ReadString acc (Chunk bs er # rs) =
     (if newline \<in> set bs then Some (acc @ takeWhile (\<lambda>b. b \<noteq> newline) bs @ [newline], None)
      else (case er of
              Some e \<Rightarrow> Some (acc @ bs, Some e)
            | None \<Rightarrow> ReadString (acc @ bs) rs))"

section \<open>Serving a connection\<close>

definition echo_request :: string where
  "echo_request = ''outbound-ping'' @ [lf]"

definition echo_reply :: string where
  "echo_reply = ''outbound-pong'' @ [lf]"

text \<open>
  The end of \<open>handle\<close>; the connection is closed in every case. The deadline of ten seconds shows as
  an error of a read or of the write.
\<close>

datatype echo_end =
    EchoBlocked
  | EchoReadFailed io_err
  | EchoUnexpected "byte list"
  | EchoWriteFailed io_err
  | EchoReplied "byte list"

definition handle :: "read_result list \<Rightarrow> io_err option \<Rightarrow> echo_end" where
  "handle rs write_err =
     (case ReadString [] rs of
        None \<Rightarrow> EchoBlocked
      | Some (line, Some e) \<Rightarrow> EchoReadFailed e
      | Some (line, None) \<Rightarrow>
          if line \<noteq> bytes_of echo_request then EchoUnexpected line
          else (case write_err of
                  Some e \<Rightarrow> EchoWriteFailed e
                | None \<Rightarrow> EchoReplied (bytes_of echo_reply)))"

section \<open>The accept loop\<close>

definition echo_addr :: "string list \<Rightarrow> string" where
  "echo_addr args = (if length args = 2 then args ! 1 else ''127.0.0.1:18443'')"

text \<open>
  \<open>Accept\<close> returns a connection, an error, or \<open>net.ErrClosed\<close> once a signal has closed the
  listener.
\<close>

datatype 'c accepted = AcceptConn 'c | AcceptErr | AcceptClosed

text \<open>The connections that are handed to a goroutine running \<open>handle\<close>, and whether \<open>main\<close> has returned.\<close>

fun echo_loop :: "'c accepted list \<Rightarrow> 'c list \<times> bool" where
  "echo_loop [] = ([], False)"
| "echo_loop (AcceptConn c # as) = (case echo_loop as of (cs, r) \<Rightarrow> (c # cs, r))"
| "echo_loop (AcceptErr # as) = echo_loop as"
| "echo_loop (AcceptClosed # as) = ([], True)"

text \<open>The program: \<open>None\<close> if it exits because it cannot listen.\<close>

definition echo_main :: "string list \<Rightarrow> bool \<Rightarrow> 'c accepted list \<Rightarrow> string \<times> ('c list \<times> bool) option" where
  "echo_main args listen_ok as = (echo_addr args, if listen_ok then Some (echo_loop as) else None)"

lemma echo_loop_cases:
  "echo_loop as = ([c. AcceptConn c \<leftarrow> takeWhile (\<lambda>a. a \<noteq> AcceptClosed) as], AcceptClosed \<in> set as)"
  by (induction as rule: echo_loop.induct) (auto split: prod.split)

section \<open>Every split of the bytes\<close>

text \<open>Reads that all return bytes without an error.\<close>

definition clean_reads :: "read_result list \<Rightarrow> bool" where
  "clean_reads rs \<longleftrightarrow> list_all (\<lambda>x. case x of Chunk bs er \<Rightarrow> er = None) rs"

fun chunk_bytes :: "read_result \<Rightarrow> byte list" where
  "chunk_bytes (Chunk bs er) = bs"

lemma ReadString_clean:
  "clean_reads rs \<Longrightarrow> newline \<in> set (concat (map chunk_bytes rs)) \<Longrightarrow>
   ReadString acc rs = Some (acc @ takeWhile (\<lambda>b. b \<noteq> newline) (concat (map chunk_bytes rs)) @ [newline], None)"
proof (induction acc rs rule: ReadString.induct)
  case (2 acc bs er rs)
  show ?case
  proof (cases "newline \<in> set bs")
    case True
    then show ?thesis by (simp add: takeWhile_append1)
  next
    case False
    with 2 have "er = None" "clean_reads rs" "newline \<in> set (concat (map chunk_bytes rs))"
      by (simp_all add: clean_reads_def)
    moreover have "takeWhile (\<lambda>b. b \<noteq> newline) (bs @ t) = bs @ takeWhile (\<lambda>b. b \<noteq> newline) t" for t
      using False by (intro takeWhile_append2) auto
    ultimately show ?thesis using 2(1) False by simp
  qed
qed simp

lemma ReadString_line:
  assumes "clean_reads rs" "concat (map chunk_bytes rs) = line @ newline # later" "newline \<notin> set line"
  shows "ReadString acc rs = Some (acc @ line @ [newline], None)"
proof -
  have "takeWhile (\<lambda>b. b \<noteq> newline) (line @ newline # later) = line"
    using assms(3) by (subst takeWhile_append2) auto
  with ReadString_clean [OF assms(1), of acc] assms(2) show ?thesis by simp
qed

lemma ReadString_text:
  assumes "clean_reads rs" "concat (map chunk_bytes rs) = bytes_of (s @ [lf])" "lf \<notin> set s"
  shows "ReadString [] rs = Some (bytes_of (s @ [lf]), None)"
  using ReadString_line [of rs "bytes_of s" "[]" "[]"] assms by simp

text \<open>
  The echo server depends on what a client sends and not on how the network splits it: for every
  split of a line it replies \<open>outbound-pong\<close> exactly if the line is \<open>outbound-ping\<close>, and reports any
  other line as it came.
\<close>

theorem handle_answers:
  assumes "clean_reads rs" "concat (map chunk_bytes rs) = bytes_of (s @ [lf])" "lf \<notin> set s"
  shows "handle rs None =
    (if s = ''outbound-ping'' then EchoReplied (bytes_of (''outbound-pong'' @ [lf]))
     else EchoUnexpected (bytes_of (s @ [lf])))"
proof -
  have "bytes_of (s @ [lf]) = bytes_of echo_request \<longleftrightarrow> s = ''outbound-ping''"
    unfolding bytes_of_inj echo_request_def by simp
  then show ?thesis by (simp only: handle_def ReadString_text [OF assms] option.case prod.case echo_reply_def if_not_P simp_thms split: if_split)
      simp
qed

theorem handle_answers_example:
  "handle [Chunk (bytes_of ''outbound-'') None, Chunk (bytes_of (''ping'' @ [lf])) None] None =
    EchoReplied (bytes_of (''outbound-pong'' @ [lf]))"
  using handle_answers [of "[Chunk (bytes_of ''outbound-'') None, Chunk (bytes_of (''ping'' @ [lf])) None]" "''outbound-ping''"]
  by (simp add: clean_reads_def bytes_of_def)

end
