(* ===== verification/Smoke_Runner.thy ===== *)
theory Smoke_Runner
  imports Smoke_Config Smoke_Nsm Host_Echo Argo_Samples
begin

text \<open>
  \<open>scripts/nitro-smoke/enclave-runner/main.go\<close>, the runner of the smoke test inside the enclave: it
  receives the configuration, tests the NSM, starts \<open>argonaut enclave\<close>, waits for its block in the
  hosts file, sends a line through the outbound bridge and waits for a request through the inbound
  one. The two polling loops run against what they would see at each instant; times are
  milliseconds. The last section runs the runner against the models of the program.
\<close>

section \<open>Receiving the configuration\<close>

definition argonautPath :: string where
  "argonautPath = ''/argonaut''"

definition smoke_configVsockPort :: string where
  "smoke_configVsockPort = ''7777''"

text \<open>
  \<open>argonaut config recv\<close> run as a child: \<open>argonaut\<close> is how it ends for its arguments, unless the
  context kills it after 90 seconds.
\<close>

definition receiveConfig :: "(string list \<Rightarrow> recv_end) \<Rightarrow> bool \<Rightarrow> unit + string" where
  "receiveConfig argonaut in_time =
     (case argonaut [argonautPath, ''config'', ''recv'', smoke_configVsockPort] of
        RecvDone out \<Rightarrow> if in_time then Inr out else Inl ()
      | _ \<Rightarrow> Inl ())"

section \<open>The HTTP server\<close>

text \<open>The handler of \<open>/health\<close>: a send to a channel of capacity one that does not wait, then the answer.\<close>

definition health_handler :: "nat \<Rightarrow> nat \<times> nat \<times> string" where
  "health_handler hits = (if hits < 1 then hits + 1 else hits, 200, ''argonaut-inbound-ok'')"

section \<open>The enclave process\<close>

text \<open>\<open>argonaut enclave\<close> on the configuration, if the process can be started.\<close>

definition startArgonautEnclave :: "(string \<Rightarrow> nat option) \<Rightarrow> string \<Rightarrow> runningProcess option" where
  "startArgonautEnclave spawn config =
     (case spawn config of None \<Rightarrow> None | Some pid \<Rightarrow> Some \<lparr>cmd_process = Some pid\<rparr>)"

section \<open>Waiting for the hosts file\<close>

definition Contains :: "string \<Rightarrow> string \<Rightarrow> bool" where
  "Contains s sub \<longleftrightarrow> Index s sub \<noteq> None"

definition smoke_hostsBeginMarker :: string where
  "smoke_hostsBeginMarker = ''# argonaut begin''"

datatype poll_error = EnclaveExited | PollTimeout

text \<open>
  What a polling loop can observe: whether the enclave process has exited, which case \<open>select\<close>
  takes when it has and the deadline is over too, and how long an iteration takes beside its sleep.
\<close>

record clockwork =
  gone :: "nat \<Rightarrow> bool"
  pick_exit :: "nat \<Rightarrow> bool"
  lag :: "nat \<Rightarrow> nat"

text \<open>The \<open>select\<close> at the head of both loops; \<open>None\<close> is its \<open>default\<close> case.\<close>

definition poll_select :: "clockwork \<Rightarrow> nat \<Rightarrow> nat \<Rightarrow> poll_error option" where
  "poll_select c deadline now =
     (if gone c now \<and> (now < deadline \<or> pick_exit c now) then Some EnclaveExited
      else if deadline \<le> now then Some PollTimeout
      else None)"

definition expected_line :: "smokeEndpoint \<Rightarrow> string" where
  "expected_line ep = smoke_LocalIP ep @ ''   '' @ smoke_Host ep"

definition hosts_ready :: "smokeEndpoint \<Rightarrow> string option \<Rightarrow> bool" where
  "hosts_ready ep content =
     (case content of
        None \<Rightarrow> False
      | Some s \<Rightarrow> Contains s smoke_hostsBeginMarker \<and> Contains s (expected_line ep))"

text \<open>The loop from the instant \<open>now\<close>: its result and the instant at which it returns.\<close>

function poll_hosts :: "clockwork \<Rightarrow> (nat \<Rightarrow> string option) \<Rightarrow> smokeEndpoint \<Rightarrow> nat \<Rightarrow> nat \<Rightarrow> (poll_error + unit) \<times> nat" where
  "poll_hosts c hosts ep deadline now =
     (case poll_select c deadline now of
        Some e \<Rightarrow> (Inl e, now)
      | None \<Rightarrow>
          if hosts_ready ep (hosts now) then (Inr (), now)
          else poll_hosts c hosts ep deadline (now + lag c now + 200))"
  by pat_completeness auto
termination
  by (relation "measure (\<lambda>(c, hosts, ep, deadline, now). deadline - now)")
    (auto simp: poll_select_def split: if_splits)

declare poll_hosts.simps [simp del]

definition verifyHostsBlock :: "clockwork \<Rightarrow> (nat \<Rightarrow> string option) \<Rightarrow> smokeEndpoint \<Rightarrow> nat \<Rightarrow> (poll_error + unit) \<times> nat" where
  "verifyHostsBlock c hosts ep now = poll_hosts c hosts ep (now + 10000) now"

section \<open>The outbound bridge\<close>

text \<open>A connection to the proxy: how long its exchange takes, whether the deadline is set, the write, the reads.\<close>

record outbound_conn =
  exchange_time :: nat
  set_deadline_ok :: bool
  ping_err :: "io_err option"
  pong_reads :: "read_result list"

datatype outbound_error =
    OutPoll poll_error
  | OutDeadlineFailed
  | OutWriteFailed io_err
  | OutBlocked
  | OutReadFailed io_err
  | OutGot "byte list"

definition outbound_exchange :: "outbound_conn \<Rightarrow> outbound_error + unit" where
  "outbound_exchange conn =
     (if \<not> set_deadline_ok conn then Inl OutDeadlineFailed
      else
        (case ping_err conn of
           Some e \<Rightarrow> Inl (OutWriteFailed e)
         | None \<Rightarrow>
             (case ReadString [] (pong_reads conn) of
                None \<Rightarrow> Inl OutBlocked
              | Some (line, Some e) \<Rightarrow> Inl (OutReadFailed e)
              | Some (line, None) \<Rightarrow>
                  if line \<noteq> bytes_of (''outbound-pong'' @ [lf]) then Inl (OutGot line) else Inr ())))"

text \<open>
  The loop, with the instant at which it returns; \<open>dial now\<close> is the time the dial takes and its
  connection, if it is made.
\<close>

function poll_outbound ::
  "clockwork \<Rightarrow> (nat \<Rightarrow> nat \<times> outbound_conn option) \<Rightarrow> nat \<Rightarrow> nat \<Rightarrow> (outbound_error + unit) \<times> nat" where
  "poll_outbound c dial deadline now =
     (case poll_select c deadline now of
        Some e \<Rightarrow> (Inl (OutPoll e), now)
      | None \<Rightarrow>
          (case dial now of
             (d, None) \<Rightarrow> poll_outbound c dial deadline (now + d + 500)
           | (d, Some conn) \<Rightarrow> (outbound_exchange conn, now + d + exchange_time conn)))"
  by pat_completeness auto
termination
  by (relation "measure (\<lambda>(c, dial, deadline, now). deadline - now)")
    (auto simp: poll_select_def split: if_splits)

declare poll_outbound.simps [simp del]

definition testOutbound ::
  "clockwork \<Rightarrow> (string \<Rightarrow> nat \<Rightarrow> nat \<times> outbound_conn option) \<Rightarrow> string \<Rightarrow> nat \<Rightarrow> (outbound_error + unit) \<times> nat" where
  "testOutbound c dial addr now = poll_outbound c (dial addr) (now + 60000) now"

section \<open>Waiting for the inbound request\<close>

datatype inbound_event = InboundHit | ExitedBefore | InboundTimeout

text \<open>
  The \<open>select\<close> at the end of the run, from the instant \<open>now\<close>: the first instant at which the
  channel \<open>inboundHit\<close> holds a request that reached the handler at \<open>request\<close> (if one does), or the
  enclave process has exited, within the 60 seconds of \<open>time.After\<close>.
\<close>

definition hit_by :: "nat option \<Rightarrow> nat \<Rightarrow> bool" where
  "hit_by request t \<longleftrightarrow> (case request of None \<Rightarrow> False | Some r \<Rightarrow> r \<le> t)"

definition inbound_select :: "clockwork \<Rightarrow> nat option \<Rightarrow> nat \<Rightarrow> inbound_event" where
  "inbound_select c request now =
     (case find (\<lambda>t. hit_by request t \<or> gone c t) [now..<now + 60000] of
        None \<Rightarrow> InboundTimeout
      | Some t \<Rightarrow> if gone c t \<and> (\<not> hit_by request t \<or> pick_exit c t) then ExitedBefore else InboundHit)"

section \<open>The run\<close>

text \<open>
  Everything the runner meets: its child processes, the listener, the clock, what it polls, and when the
  first request reaches its HTTP server, given the instant at which it logs that it is ready.
\<close>

record 's smoke_env =
  env_recv :: "string list \<Rightarrow> recv_end"
  env_recv_in_time :: bool
  env_nsm_stat :: bool
  env_nsm_pipes :: bool
  env_nsm_started :: "nat option"
  env_nsm_child :: "'s child"
  env_http_listens :: bool
  env_enclave_started :: "string \<Rightarrow> nat option"
  env_clock :: clockwork
  env_hosts :: "nat \<Rightarrow> string option"
  env_dial :: "string \<Rightarrow> nat \<Rightarrow> nat \<times> outbound_conn option"
  env_request :: "nat \<Rightarrow> nat option"

datatype smoke_error =
    ReceiveFailed
  | EndpointFailed smoke_config_error
  | NsmTestFailed nsm_test_error
  | HTTPListenFailed
  | EnclaveStartFailed
  | HostsCheckFailed poll_error
  | OutboundFailed outbound_error
  | InboundExited
  | InboundTimedOut

text \<open>The checks of \<open>run\<close> once the enclave process is running.\<close>

definition enclave_checks :: "'s smoke_env \<Rightarrow> smokeEndpoint \<Rightarrow> smoke_error + unit" where
  "enclave_checks env ep =
     (case verifyHostsBlock (env_clock env) (env_hosts env) ep 0 of
        (Inl e, _) \<Rightarrow> Inl (HostsCheckFailed e)
      | (Inr _, now) \<Rightarrow>
          (case testOutbound (env_clock env) (env_dial env) (outboundAddr ep) now of
             (Inl e, _) \<Rightarrow> Inl (OutboundFailed e)
           | (Inr _, ready) \<Rightarrow>
               (case inbound_select (env_clock env) (env_request env ready) ready of
                  InboundHit \<Rightarrow> Inr ()
                | ExitedBefore \<Rightarrow> Inl InboundExited
                | InboundTimeout \<Rightarrow> Inl InboundTimedOut)))"

text \<open>The error or nil, the processes killed and whether the HTTP server has been shut down.\<close>

definition smoke_run :: "'s smoke_env \<Rightarrow> 's \<Rightarrow> (smoke_error + unit) \<times> nat list \<times> bool" where
  "smoke_run env st =
     (case receiveConfig (env_recv env) (env_recv_in_time env) of
        Inl _ \<Rightarrow> (Inl ReceiveFailed, [], False)
      | Inr config \<Rightarrow>
          (case parseSmokeEndpoint config of
             Inl e \<Rightarrow> (Inl (EndpointFailed e), [], False)
           | Inr ep \<Rightarrow>
               (case testNSM (env_nsm_stat env) (env_nsm_pipes env) (env_nsm_started env) (env_nsm_child env) st [] of
                  (Inl e, _, killed) \<Rightarrow> (Inl (NsmTestFailed e), killed, False)
                | (Inr _, _, killed) \<Rightarrow>
                    if \<not> env_http_listens env then (Inl HTTPListenFailed, killed, False)
                    else
                      (case startArgonautEnclave (env_enclave_started env) config of
                         None \<Rightarrow> (Inl EnclaveStartFailed, killed, True)
                       | Some proc \<Rightarrow> (enclave_checks env ep, stopProcess (Some proc) killed, True)))))"

text \<open>\<open>main\<close>: the line that tells the outcome, and the exit status.\<close>

definition smoke_main :: "'s smoke_env \<Rightarrow> 's \<Rightarrow> string \<times> nat" where
  "smoke_main env st =
     (case fst (smoke_run env st) of
        Inl e \<Rightarrow> (''ARGONAUT_SMOKE_FAIL'', 1)
      | Inr _ \<Rightarrow> (''ARGONAUT_SMOKE_OK'', 0))"

section \<open>The loops come to an end\<close>

text \<open>What is polled for turns up early enough: the loop finds it.\<close>

lemma poll_hosts_finds:
  assumes "\<And>t. \<not> gone c t" "\<And>t. lag c t \<le> D" "\<And>t. T \<le> t \<Longrightarrow> hosts_ready ep (hosts t)" "T + D + 200 \<le> deadline"
  shows "now < deadline \<Longrightarrow> fst (poll_hosts c hosts ep deadline now) = Inr ()"
proof (induction "deadline - now" arbitrary: now rule: less_induct)
  case less
  have go: "poll_select c deadline now = None" using assms(1) less.prems by (simp add: poll_select_def)
  show ?case
  proof (cases "hosts_ready ep (hosts now)")
    case True
    with go show ?thesis by (simp add: poll_hosts.simps [of c hosts ep deadline now])
  next
    case False
    with assms(3) have "now < T" by (meson not_le)
    with assms(2) [of now] assms(4) have "now + lag c now + 200 < deadline" by linarith
    with less False go show ?thesis by (simp add: poll_hosts.simps [of c hosts ep deadline now])
  qed
qed

lemma poll_outbound_finds:
  assumes "\<And>t. \<not> gone c t" "\<And>t. fst (dial t) \<le> D"
    "\<And>t. case snd (dial t) of None \<Rightarrow> t < T | Some conn \<Rightarrow> outbound_exchange conn = Inr ()" "T + D + 500 \<le> deadline"
  shows "now < deadline \<Longrightarrow> fst (poll_outbound c dial deadline now) = Inr ()"
proof (induction "deadline - now" arbitrary: now rule: less_induct)
  case less
  have go: "poll_select c deadline now = None" using assms(1) less.prems by (simp add: poll_select_def)
  obtain d r where d: "dial now = (d, r)" by force
  show ?case
  proof (cases r)
    case None
    with assms(2,3) [of now] assms(4) d have "now + d + 500 < deadline" by simp
    with less None go d show ?thesis by (simp add: poll_outbound.simps [of c dial deadline now])
  next
    case (Some conn)
    with assms(3) [of now] go d show ?thesis by (simp add: poll_outbound.simps [of c dial deadline now])
  qed
qed

lemma inbound_select_hit:
  assumes "\<And>t. \<not> gone c t" "request = Some r" "r < now + 60000"
  shows "inbound_select c request now = InboundHit"
proof -
  have "find (\<lambda>t. hit_by request t \<or> gone c t) [now..<now + 60000] \<noteq> None"
    unfolding find_None_iff
  proof
    assume "\<not> (\<exists>t. t \<in> set [now..<now + 60000] \<and> (hit_by request t \<or> gone c t))"
    moreover have "max now r \<in> set [now..<now + 60000]" "hit_by request (max now r)"
      using assms(2,3) by (simp_all add: hit_by_def)
    ultimately show False by blast
  qed
  with assms(1) show ?thesis by (auto simp: inbound_select_def)
qed

section \<open>Against the program\<close>

lemma Contains_iff: "Contains s sub \<longleftrightarrow> sublist sub s"
  by (simp add: Contains_def Index_None_iff)

text \<open>The block that \<open>writeHosts\<close> leaves is what the runner looks for.\<close>

lemma merged_hosts_ready:
  assumes "smoke_Host s = Host ep" "smoke_LocalIP s = endpointLocalIP ep 0"
  shows "hosts_ready s (Some (base @ hosts_block [ep]))"
proof -
  have "smoke_hostsBeginMarker = hostsBeginMarker"
    by (simp only: smoke_hostsBeginMarker_def hostsBeginMarker_def)
  moreover have "sublist hostsBeginMarker (base @ hosts_block [ep])"
    unfolding hosts_block_def by (rule sublist_appendI)
  moreover have "base @ hosts_block [ep] = (base @ hostsBeginMarker @ [lf]) @ expected_line s @ [lf] @ hostsEndMarker @ [lf]"
    using assms by (simp add: hosts_block_def host_line_def expected_line_def)
  then have "sublist (expected_line s) (base @ hosts_block [ep])" by (simp only: sublist_appendI)
  ultimately show ?thesis by (simp only: hosts_ready_def Contains_iff option.case simp_thms)
qed

text \<open>
  Bridges on the way of a connection: for one direction through each of them, how its reads split the
  bytes, and its writes. If no read and no write fails, the bytes that a chain of bridges delivers are
  what each copies of what the one before it delivered.
\<close>

record hop =
  hop_reads :: "read_result list"
  hop_writes :: write_script

definition hop_healthy :: "hop \<Rightarrow> bool" where
  "hop_healthy h \<longleftrightarrow>
     clean_reads (hop_reads h)
     \<and> hop_writes h = map (\<lambda>c. (length (chunk_bytes c), None)) (filter (\<lambda>c. chunk_bytes c \<noteq> []) (hop_reads h))"

fun through :: "hop list \<Rightarrow> byte list \<Rightarrow> byte list \<Rightarrow> bool" where
  "through [] bs out \<longleftrightarrow> out = bs"
| "through (h # hs) bs out \<longleftrightarrow>
     hop_healthy h \<and> concat (map chunk_bytes (hop_reads h)) = bs
     \<and> through hs (fst (copy_all (hop_reads h) (hop_writes h))) out"

text \<open>
  An outbound connection of the runner: its line goes through the bridges of the enclave and of the
  host to the echo server, whose answer, if it gives one, comes back through them.
\<close>

definition reaches_echo :: "outbound_conn \<Rightarrow> bool" where
  "reaches_echo conn \<longleftrightarrow>
     set_deadline_ok conn \<and> ping_err conn = None \<and> clean_reads (pong_reads conn)
     \<and> (\<exists>enclave host enclave' host' rs request.
          through [enclave, host] (bytes_of (''outbound-ping'' @ [lf])) request
          \<and> clean_reads rs \<and> concat (map chunk_bytes rs) = request
          \<and> through [host', enclave'] (case handle rs None of EchoReplied reply \<Rightarrow> reply | _ \<Rightarrow> [])
              (concat (map chunk_bytes (pong_reads conn))))"

lemma copy_healthy:
  "clean_reads rs \<Longrightarrow> ws = map (\<lambda>c. (length (chunk_bytes c), None)) (filter (\<lambda>c. chunk_bytes c \<noteq> []) rs) \<Longrightarrow>
   fst (copy_all rs ws) = concat (map chunk_bytes rs)"
proof (induction rs arbitrary: ws)
  case (Cons c rs)
  obtain bs er where c: "c = Chunk bs er" by (cases c)
  with Cons.prems(1) have "er = None" "clean_reads rs" by (simp_all add: clean_reads_def)
  with Cons c show ?case by (auto simp: read_end_def split: prod.split)
qed simp

lemma through_same: "through hs bs out \<Longrightarrow> out = bs"
  by (induction hs arbitrary: bs) (auto simp: hop_healthy_def copy_healthy)

lemma reaches_echo_exchange:
  assumes "reaches_echo conn"
  shows "outbound_exchange conn = Inr ()"
proof -
  obtain rs request where c: "set_deadline_ok conn" "ping_err conn = None" "clean_reads (pong_reads conn)"
    and r: "clean_reads rs" "concat (map chunk_bytes rs) = bytes_of (''outbound-ping'' @ [lf])"
    and b: "concat (map chunk_bytes (pong_reads conn)) = (case handle rs None of EchoReplied reply \<Rightarrow> reply | _ \<Rightarrow> [])"
    using assms unfolding reaches_echo_def by (metis through_same)
  have "handle rs None = EchoReplied (bytes_of (''outbound-pong'' @ [lf]))"
    using ReadString_text [OF r] by (simp add: handle_def echo_request_def echo_reply_def)
  with b have "concat (map chunk_bytes (pong_reads conn)) = bytes_of (''outbound-pong'' @ [lf])" by simp
  from ReadString_text [OF c(3) this] c(1,2) show ?thesis by (simp add: outbound_exchange_def)
qed

text \<open>
  A deployment of the program as the runner meets it: its child processes are the program, started
  on the configuration \<open>raw\<close>; the enclave process stays up and the hosts file is the one it leaves
  after at most 8 seconds, polled with a delay of at most one second; the proxy accepts connections
  after at most 40 seconds, each dial takes at most one second, and the connections reach the echo
  server; and the script outside sends a request within a minute after the runner is ready.
\<close>

definition runs_program ::
  "'k smoke_env \<Rightarrow> string \<Rightarrow> cbor \<Rightarrow> 'k kernel \<Rightarrow> nat \<Rightarrow> fs list \<Rightarrow> enclave_plan \<Rightarrow> bool"
where
  "runs_program env raw cb k fd trace ql \<longleftrightarrow>
     env_recv env = (\<lambda>args. configRecv args True True raw False True) \<and> env_recv_in_time env
     \<and> env_nsm_stat env \<and> env_nsm_pipes env \<and> env_nsm_started env \<noteq> None
     \<and> env_nsm_child env = nsm_child (NitroBackend cb k fd) \<and> env_http_listens env
     \<and> env_enclave_started env raw \<noteq> None
     \<and> (\<forall>t. \<not> gone (env_clock env) t \<and> lag (env_clock env) t \<le> 1000)
     \<and> (\<forall>t. t < 8000 \<or> env_hosts env t = map_option data (last trace hostsPath))
     \<and> (\<forall>t. fst (env_dial env (fst (hd (enclave_outbound ql))) t) \<le> 1000)
     \<and> (\<forall>t. case snd (env_dial env (fst (hd (enclave_outbound ql))) t) of
          None \<Rightarrow> t < 40000
        | Some conn \<Rightarrow> reaches_echo conn)
     \<and> (\<forall>ready. \<exists>r < ready + 60000. env_request env ready = Some r)"

text \<open>The device works: random bytes, then a document of at least 32 bytes.\<close>

definition nsm_works :: "cbor \<Rightarrow> 'k kernel \<Rightarrow> nat \<Rightarrow> 'k \<Rightarrow> bool" where
  "nsm_works cb k fd st \<longleftrightarrow>
     (case GetRandom cb k fd st of
        (Inl _, _) \<Rightarrow> False
      | (Inr _, st1) \<Rightarrow>
          (case fst (GetAttestation cb k fd smoke_attestation st1) of Inl _ \<Rightarrow> False | Inr doc \<Rightarrow> 32 \<le> length doc))"

lemma nsm_works_test:
  assumes "nsm_works cb k fd st"
  shows "\<exists>st'. testNSM True True (Some pid) (nsm_child (NitroBackend cb k fd)) st killed = (Inr (), st', killed @ [pid])"
proof -
  obtain random st1 where r: "GetRandom cb k fd st = (Inr random, st1)"
    using assms by (cases "GetRandom cb k fd st"; cases "fst (GetRandom cb k fd st)") (auto simp: nsm_works_def)
  moreover obtain doc st2 where "GetAttestation cb k fd smoke_attestation st1 = (Inr doc, st2)" "32 \<le> length doc"
    using assms r by (cases "GetAttestation cb k fd smoke_attestation st1") (auto simp: nsm_works_def split: sum.splits)
  ultimately show ?thesis
    using testNSM_server [of cb k fd pid st killed]
    by (cases "testNSM True True (Some pid) (nsm_child (NitroBackend cb k fd)) st killed") (auto simp: Let_def)
qed

lemma config_recv_smoke:
  assumes "length raw \<le> maxConfigBytes"
  shows "configRecv [argonautPath, ''config'', ''recv'', smoke_configVsockPort] True True raw False True = RecvDone raw"
proof -
  have "ParseUint 32 smoke_configVsockPort = Some 7777" 
    by (simp add: smoke_configVsockPort_def ParseUint_def all_digits_def is_digit_def dec_value_def digit_val_def)
  with assms show ?thesis by (simp add: configRecv_def readAllLimited_all)
qed

lemma enclave_checks_pass:
  assumes "runs_program env raw cb k fd trace ql" "outboundAddr s = fst (hd (enclave_outbound ql))"
    "hosts_ready s (map_option data (last trace hostsPath))"
  shows "enclave_checks env s = Inr ()"
proof -
  let ?dial = "env_dial env (fst (hd (enclave_outbound ql)))"
  have env: "\<not> gone (env_clock env) t" "lag (env_clock env) t \<le> 1000"
    "t < 8000 \<or> env_hosts env t = map_option data (last trace hostsPath)" "fst (?dial t) \<le> 1000"
    "case snd (?dial t) of None \<Rightarrow> t < 40000 | Some conn \<Rightarrow> reaches_echo conn"
    "\<exists>r < t + 60000. env_request env t = Some r" for t
    using assms(1) unfolding runs_program_def by blast+
  have ready: "8000 \<le> t \<Longrightarrow> hosts_ready s (env_hosts env t)" for t using env(3) [of t] assms(3) by auto
  have dial: "case snd (?dial t) of None \<Rightarrow> t < 40000 | Some conn \<Rightarrow> outbound_exchange conn = Inr ()" for t
    using env(5) [of t] reaches_echo_exchange by (auto split: option.splits)
  have "fst (poll_hosts (env_clock env) (env_hosts env) s 10000 0) = Inr ()"
    by (rule poll_hosts_finds [where D = 1000 and T = 8000]) (use env(1,2) ready in simp_all)
  then obtain now where hosts: "verifyHostsBlock (env_clock env) (env_hosts env) s 0 = (Inr (), now)"
    unfolding verifyHostsBlock_def by (metis add_0 prod.collapse)
  have "fst (testOutbound (env_clock env) (env_dial env) (outboundAddr s) now) = Inr ()"
    unfolding testOutbound_def assms(2)
    by (rule poll_outbound_finds [where D = 1000 and T = 40000]) (use env(1,4) dial in simp_all)
  then obtain ready' where out: "testOutbound (env_clock env) (env_dial env) (outboundAddr s) now = (Inr (), ready')"
    by (metis prod.collapse)
  obtain r where "r < ready' + 60000" "env_request env ready' = Some r" using env(6) by blast
  with inbound_select_hit [OF env(1)] have "inbound_select (env_clock env) (env_request env ready') ready' = InboundHit" by blast
  with hosts out show ?thesis by (simp add: enclave_checks_def)
qed

text \<open>What host and enclave do with a document that has one endpoint.\<close>

lemma one_endpoint_deployed:
  assumes "lone_endpoint_doc (sent_config pl)"
    "enclaveMode (sent_config pl) fails calls flags read_ok out fs = (trace, flags', EnclaveRunning ql)"
    "fresh_temp out hostsPath fs"
  obtains s where "parseSmokeEndpoint (sent_config pl) = Inr s" "outboundAddr s = fst (hd (enclave_outbound ql))"
    "hosts_ready s (map_option data (last trace hostsPath))" "length (sent_config pl) \<le> maxConfigBytes"
proof -
  obtain parsed eps where e: "length (sent_config pl) \<le> maxConfigBytes" "ParseConfig (sent_config pl) = Inr parsed"
    "Endpoints parsed = Some eps" "endpoints_ok eps"
    "writeHosts read_ok out hostsPath eps fs = (trace, Inr ())"
    "ql = \<lparr>enclave_inbound = (HTTPVsockPort parsed, local_target (HTTPTCPPort parsed), parentCID),
       enclave_outbound = map (\<lambda>i. (proxy_addr i (eps ! i), parentCID, VsockPort (eps ! i))) [0..<length eps]\<rparr>"
    by (rule enclaveMode_Running [OF assms(2)])
  have ok: "list_all endpoint_ok eps" using e(4) by (simp add: endpoints_ok_def)
  obtain ep where ep: "eps = [ep]" "parseSmokeEndpoint (sent_config pl) =
      Inr \<lparr>smoke_Host = Host ep, smoke_LocalIP = endpointLocalIP ep 0, smoke_LocalPort = LocalPort ep\<rparr>"
    by (rule parseSmokeEndpoint_agrees [OF assms(1) e(2,3) ok])
  let ?s = "\<lparr>smoke_Host = Host ep, smoke_LocalIP = endpointLocalIP ep 0, smoke_LocalPort = LocalPort ep\<rparr>"
  have "outboundAddr ?s = fst (hd (enclave_outbound ql))"
    by (simp add: e(6) ep(1) outboundAddr_def proxy_addr_def)
  moreover obtain content where "mergeHosts (old_content fs) [ep] = Inr content"
    "last trace = fs(hostsPath \<mapsto> new_file content 420)"
    using writeHosts_final [OF e(5) assms(3)] ep(1) by auto
  then have "map_option data (last trace hostsPath) = Some ((hosts_base (old_content fs) @ [lf, lf]) @ hosts_block [ep])"
    by (auto simp: mergeHosts_def result_iff new_file_def)
  then have "hosts_ready ?s (map_option data (last trace hostsPath))"
    by (simp only:) (rule merged_hosts_ready, simp_all)
  ultimately show ?thesis using that ep(2) e(1) by blast
qed

section \<open>Properties\<close>

text \<open>
  C8: The smoke test accepts the program. Let the configuration file, in any layout, have one endpoint
  and repeat no key of it; let the host have started on it and the enclave on what the host sent; let
  the NSM device return random bytes and a document; let nothing fail outside the program: the child
  processes start, the hosts file and the proxy are there before the runner's deadlines, a
  connection to the proxy passes both bridges to the echo server and back without a network error,
  split in any way, and the first request from outside comes within a minute after the runner is
  ready. Then the runner's own reading of the configuration, its test of the NSM, its search in the
  hosts file, its dial and its exchange agree with what the program does: it prints
  \<open>ARGONAUT_SMOKE_OK\<close>, exits with 0, and has killed both of its child processes.
\<close>

theorem smoke_test_passes:
  assumes "files (args ! 3) = Some raw" "lone_endpoint_doc raw"
    "hostMode cfg args files dial_ok ws = HostRunning pl"
    "enclaveMode (sent_config pl) False calls flags read_ok out fs = (trace, flags', EnclaveRunning ql)"
    "fresh_temp out hostsPath fs" "runs_program env raw cb k fd trace ql" "nsm_works cb k fd st"
  shows "smoke_main env st = (''ARGONAUT_SMOKE_OK'', 0)
    \<and> fst (snd (smoke_run env st)) = [the (env_nsm_started env), the (env_enclave_started env raw)]"
proof -
  have sent: "sent_config pl = raw"
    by (rule hostMode_Running [OF assms(3)]) (use assms(1) in simp)
  obtain s where s: "parseSmokeEndpoint raw = Inr s" "outboundAddr s = fst (hd (enclave_outbound ql))"
    "hosts_ready s (map_option data (last trace hostsPath))" "length raw \<le> maxConfigBytes"
    using one_endpoint_deployed [OF _ assms(4,5)] assms(2) unfolding sent by blast
  note checks = enclave_checks_pass [OF assms(6) s(2,3)]
  have env: "env_recv env = (\<lambda>args. configRecv args True True raw False True)" "env_recv_in_time env"
    "env_nsm_stat env" "env_nsm_pipes env" "env_nsm_child env = nsm_child (NitroBackend cb k fd)" "env_http_listens env"
    using assms(6) by (simp_all add: runs_program_def)
  obtain pid qid where pids: "env_nsm_started env = Some pid" "env_enclave_started env raw = Some qid"
    using assms(6) by (auto simp: runs_program_def)
  have recv: "receiveConfig (env_recv env) (env_recv_in_time env) = Inr raw"
    using config_recv_smoke [OF s(4)] env by (simp add: receiveConfig_def)
  obtain st' where "testNSM True True (Some pid) (nsm_child (NitroBackend cb k fd)) st [] = (Inr (), st', [pid])"
    using nsm_works_test [OF assms(7), of pid "[]"] by auto
  then show ?thesis
    using recv s(1) checks env pids by (simp add: smoke_main_def smoke_run_def startArgonautEnclave_def stopProcess_def)
qed

section \<open>Examples\<close>

text \<open>A device that answers every request, behind a CBOR package that knows its two answers.\<close>

definition working_cbor :: cbor where
  "working_cbor =
     \<lparr>Marshal = (\<lambda>v. Inr (case v of CText _ \<Rightarrow> [1] | _ \<Rightarrow> [2])),
      UnmarshalMap = (\<lambda>bs.
        if bs = [1] then Inr [(''GetRandom'', [3])] else if bs = [2] then Inr [(''Attestation'', [4])]
        else if bs = [3] then Inr [(''random'', [])] else Inr [(''document'', [])]),
      UnmarshalBytes = (\<lambda>bs. Inr (replicate 32 7)), UnmarshalText = (\<lambda>bs. Inl ''no text'')\<rparr>"

definition working_kernel :: "unit kernel" where
  "working_kernel =
     \<lparr>open_device = (\<lambda>path st. (Inr 3, st)), close_fd = (\<lambda>fd st. st),
      ioctl = (\<lambda>fd cmd msg st. (\<lparr>errno = 0, written = Base (Request msg), response_len = 1\<rparr>, st)),
      errno_text = (\<lambda>e. [])\<rparr>"

lemma working_ioctl: "nsmIoctl working_kernel 3 [x] () = (Inr [x], ())"
  by (simp add: nsmIoctl_def nsmRequestMaxSize_def nsmResponseMaxSize_def working_kernel_def nsm_message_def Let_def)

lemma working_device: "nsm_works working_cbor working_kernel 3 ()"
proof -
  have "encodeGetRandomRequest working_cbor = Inr [1]" "decodeGetRandomResponse working_cbor [1] = Inr (replicate 32 7)"
    "validateAttestationRequest smoke_attestation = Inr ()" "encodeAttestationRequest working_cbor smoke_attestation = Inr [2]"
    "decodeAttestationResponse working_cbor [2] = Inr (replicate 32 7)"
    by code_simp+
  then show ?thesis by (simp add: nsm_works_def GetRandom_def GetAttestation_def working_ioctl)
qed

definition echoed_conn :: outbound_conn where
  "echoed_conn =
     \<lparr>exchange_time = 30, set_deadline_ok = True, ping_err = None,
      pong_reads = [Chunk (bytes_of (''outbound-pong'' @ [lf])) None]\<rparr>"

definition whole :: "string \<Rightarrow> hop" where
  "whole s = \<lparr>hop_reads = [Chunk (bytes_of s) None], hop_writes = [(length s, None)]\<rparr>"

lemma through_whole: "s \<noteq> [] \<Longrightarrow> through [whole s, whole s] (bytes_of s) (bytes_of s)"
  by (simp add: whole_def hop_healthy_def clean_reads_def bytes_of_def read_end_def)

lemma echoed_sample: "reaches_echo echoed_conn"
proof -
  let ?ping = "''outbound-ping'' @ [lf]" and ?pong = "''outbound-pong'' @ [lf]"
  have "handle [Chunk (bytes_of ?ping) None] None = EchoReplied (bytes_of ?pong)" by code_simp
  then have "through [whole ?pong, whole ?pong]
      (case handle [Chunk (bytes_of ?ping) None] None of EchoReplied reply \<Rightarrow> reply | _ \<Rightarrow> [])
      (concat (map chunk_bytes (pong_reads echoed_conn)))"
    using through_whole [of ?pong] by (simp add: echoed_conn_def del: through.simps bytes_of_append)
  moreover have "clean_reads [Chunk (bytes_of ?ping) None]" "concat (map chunk_bytes [Chunk (bytes_of ?ping) None]) = bytes_of ?ping"
    "clean_reads (pong_reads echoed_conn)" by (simp_all add: clean_reads_def echoed_conn_def)
  moreover have "through [whole ?ping, whole ?ping] (bytes_of ?ping) (bytes_of ?ping)"
    by (rule through_whole) simp
  moreover have "set_deadline_ok echoed_conn" "ping_err echoed_conn = None" by (simp_all add: echoed_conn_def)
  ultimately show ?thesis unfolding reaches_echo_def by blast
qed

definition sample_env :: "string \<Rightarrow> fs list \<Rightarrow> unit smoke_env" where
  "sample_env raw trace =
     \<lparr>env_recv = (\<lambda>args. configRecv args True True raw False True), env_recv_in_time = True,
      env_nsm_stat = True, env_nsm_pipes = True, env_nsm_started = Some 10,
      env_nsm_child = nsm_child (NitroBackend working_cbor working_kernel 3), env_http_listens = True,
      env_enclave_started = (\<lambda>config. Some 11),
      env_clock = \<lparr>gone = (\<lambda>t. False), pick_exit = (\<lambda>t. False), lag = (\<lambda>t. 1)\<rparr>,
      env_hosts = (\<lambda>t. if t < 300 then None else map_option data (last trace hostsPath)),
      env_dial = (\<lambda>addr t. if t < 900 then (20, None) else (20, Some echoed_conn)),
      env_request = (\<lambda>ready. Some (ready + 2000))\<rparr>"

text \<open>The smoke test with the configuration file of its script.\<close>

lemma script_lone: "lone_endpoint_doc script_text"
proof -
  have "parse_json script_text = Some script_json"
    by (simp add: parse_json_def script_decode at_eof_def json_space_def)
  moreover have "filter (\<lambda>m. field_of [''endpoints''] (fst m) \<noteq> None)
      (case script_json of JObj ms \<Rightarrow> ms | _ \<Rightarrow> []) =
      [(''endpoints'', JArr [JObj [(''host'', JStr ''argonaut-smoke.local''), (''vsockPort'', JNum ''8100''),
          (''tcpPort'', JNum ''18443''), (''localIP'', JStr ''127.0.0.1''), (''localPort'', JNum ''9443'')]])]"
    by (simp add: script_json_def)
  ultimately show ?thesis by (simp add: lone_endpoint_doc_def script_json_def)
qed

theorem smoke_test_passes_example:
  "\<exists>trace. smoke_main (sample_env script_text trace) () = (''ARGONAUT_SMOKE_OK'', 0)"
proof -
  obtain pl where pl: "hostMode sample_settings sample_args [''config.json'' \<mapsto> script_text] True
      [(length script_text, None)] = HostRunning pl" "sent_config pl = script_text"
    using host_runs [OF script_usable] by blast
  obtain trace flags' ql where ql: "enclaveMode (sent_config pl) False sample_loopback 0 True
      (sample_outcomes True) Map.empty = (trace, flags', EnclaveRunning ql)"
    using enclave_runs [OF script_usable] pl(2) by auto
  have env: "runs_program (sample_env script_text trace) script_text working_cbor working_kernel 3 trace ql"
    by (simp add: runs_program_def sample_env_def echoed_sample)
  have "[''config.json'' \<mapsto> script_text] (sample_args ! 3) = Some script_text" by (simp add: sample_args_def)
  from smoke_test_passes [OF this script_lone pl(1) ql sample_temp env working_device] show ?thesis by auto
qed

end
