(* ===== verification/Bench_Server.thy ===== *)
theory Bench_Server
  imports Smoke_Runner
begin

text \<open>
  \<open>scripts/nitro-bench/enclave-server/main.go\<close>: the HTTP server that the benchmarks load through the
  bridges, with its payload loop, and the run that starts \<open>argonaut enclave\<close> beside it. Requests are
  given by their clean path (the \<open>ServeMux\<close> redirects others), responses by the status, the content type
  and length that the handler sets, and the bytes of the body.
\<close>

section \<open>The payload\<close>

definition maxPayloadBytes :: int where
  "maxPayloadBytes = 1048576"

definition chunkSize :: nat where
  "chunkSize = 32768"

definition payload_byte :: "nat \<Rightarrow> byte" where
  "payload_byte i = of_nat (97 + i mod 26)"

definition chunk :: "byte list" where
  "chunk = map payload_byte [0..<chunkSize]"

text \<open>
  \<open>writePayload\<close>: the bytes that reach the response when the write number \<open>i\<close> reports an error after
  \<open>k\<close> bytes (\<open>fails i = Some k\<close>) or succeeds (\<open>None\<close>).
\<close>

function writePayload :: "(nat \<Rightarrow> nat option) \<Rightarrow> nat \<Rightarrow> int \<Rightarrow> byte list" where
  "writePayload fails i sz =
     (if sz > 0 then
        let n = (if sz > int (length chunk) then length chunk else nat sz)
        in (case fails i of
              Some k \<Rightarrow> take k (take n chunk)
            | None \<Rightarrow> take n chunk @ writePayload fails (i + 1) (sz - int n))
      else [])"
  by pat_completeness auto
termination
  by (relation "measure (\<lambda>(fails, i, sz). nat sz)") (auto simp: chunk_def chunkSize_def)

declare writePayload.simps [simp del]

section \<open>The handlers\<close>

record http_response =
  status :: nat
  content_type :: "string option"
  content_length :: "string option"
  body :: "byte list"

definition bench_health :: http_response where
  "bench_health = \<lparr>status = 200, content_type = None, content_length = None, body = bytes_of ''argonaut-bench-ok''\<rparr>"

definition TrimPrefix :: "string \<Rightarrow> string \<Rightarrow> string" where
  "TrimPrefix s p = (if prefix p s then drop (length p) s else s)"

definition bytes_handler :: "(nat \<Rightarrow> nat option) \<Rightarrow> string \<Rightarrow> http_response" where
  "bytes_handler fails path =
     (let invalid = \<lparr>status = 400, content_type = Some ''text/plain; charset=utf-8'', content_length = None,
                     body = bytes_of (''invalid size'' @ [lf])\<rparr>
      in case Atoi (TrimPrefix path ''/bytes/'') of
           None \<Rightarrow> invalid
         | Some sz \<Rightarrow>
             if sz < 0 \<or> sz > maxPayloadBytes then invalid
             else \<lparr>status = 200, content_type = Some ''application/octet-stream'',
                   content_length = Some (Itoa (nat sz)), body = writePayload fails 0 sz\<rparr>)"

text \<open>The routes of the mux: a path, and a subtree to which its root without the slash redirects.\<close>

datatype served = Served http_response | RedirectTo string | NotFound

definition bench_mux :: "(nat \<Rightarrow> nat option) \<Rightarrow> string \<Rightarrow> served" where
  "bench_mux fails path =
     (if path = ''/health'' then Served bench_health
      else if prefix ''/bytes/'' path then Served (bytes_handler fails path)
      else if path = ''/bytes'' then RedirectTo ''/bytes/''
      else NotFound)"

section \<open>The run\<close>

definition bench_configVsockPort :: string where
  "bench_configVsockPort = ''7777''"

definition bench_receiveConfig :: "(string list \<Rightarrow> recv_end) \<Rightarrow> bool \<Rightarrow> unit + string" where
  "bench_receiveConfig argonaut in_time =
     (case argonaut [argonautPath, ''config'', ''recv'', bench_configVsockPort] of
        RecvDone out \<Rightarrow> if in_time then Inr out else Inl ()
      | _ \<Rightarrow> Inl ())"

text \<open>The environment of the enclave process: the last assignment of a variable counts.\<close>

definition bench_environ :: "environ \<Rightarrow> environ" where
  "bench_environ env nm = (if nm = ''ARGONAUT_LOG_CONNECTIONS'' then ''0'' else env nm)"

text \<open>The process started on the configuration, if it starts, and its environment.\<close>

definition bench_startArgonautEnclave ::
  "environ \<Rightarrow> (string \<Rightarrow> environ \<Rightarrow> nat option) \<Rightarrow> string \<Rightarrow> runningProcess option"
where
  "bench_startArgonautEnclave env spawn config =
     (case spawn config (bench_environ env) of None \<Rightarrow> None | Some pid \<Rightarrow> Some \<lparr>cmd_process = Some pid\<rparr>)"

definition bench_stopProcess :: "runningProcess option \<Rightarrow> nat list \<Rightarrow> nat list" where
  "bench_stopProcess proc killed =
     (case proc of
        None \<Rightarrow> killed
      | Some p \<Rightarrow> (case cmd_process p of None \<Rightarrow> killed | Some pid \<Rightarrow> killed @ [pid]))"

datatype bench_error = BenchReceiveFailed | BenchListenFailed | BenchStartFailed | BenchEnclaveExited

text \<open>
  \<open>run\<close> waits for the enclave process to exit (\<open>exits\<close>), so that it returns with an error or not at
  all (\<open>None\<close>): the error, the processes killed and whether the HTTP server was shut down.
\<close>

definition bench_run ::
  "(string list \<Rightarrow> recv_end) \<Rightarrow> bool \<Rightarrow> bool \<Rightarrow> environ \<Rightarrow> (string \<Rightarrow> environ \<Rightarrow> nat option) \<Rightarrow> bool \<Rightarrow>
    (bench_error \<times> nat list \<times> bool) option"
where
  "bench_run argonaut in_time listen_ok env spawn exits =
     (case bench_receiveConfig argonaut in_time of
        Inl _ \<Rightarrow> Some (BenchReceiveFailed, [], False)
      | Inr config \<Rightarrow>
          if \<not> listen_ok then Some (BenchListenFailed, [], False)
          else
            (case bench_startArgonautEnclave env spawn config of
               None \<Rightarrow> Some (BenchStartFailed, [], True)
             | Some proc \<Rightarrow>
                 if exits then Some (BenchEnclaveExited, bench_stopProcess (Some proc) [], True) else None))"

text \<open>\<open>main\<close>: the exit status, if \<open>run\<close> returns.\<close>

definition bench_main ::
  "(string list \<Rightarrow> recv_end) \<Rightarrow> bool \<Rightarrow> bool \<Rightarrow> environ \<Rightarrow> (string \<Rightarrow> environ \<Rightarrow> nat option) \<Rightarrow> bool \<Rightarrow>
    (bench_error \<times> nat) option"
where
  "bench_main argonaut in_time listen_ok env spawn exits =
     map_option (\<lambda>(e, _). (e, 1)) (bench_run argonaut in_time listen_ok env spawn exits)"

text \<open>The enclave of the benchmark does not log its connections.\<close>

lemma bench_not_logging: "\<not> logBridgeConnections (load_settings pd (bench_environ env))"
  by (simp add: load_settings_def envBool_def bench_environ_def ParseBool_def)

section \<open>The bytes of a payload\<close>

definition payload :: "nat \<Rightarrow> byte list" where
  "payload n = map (\<lambda>i. payload_byte (i mod chunkSize)) [0..<n]"

lemma length_payload: "length (payload n) = n"
  by (simp add: payload_def)

lemma take_chunk: "n \<le> chunkSize \<Longrightarrow> take n chunk = payload n"
  by (simp add: chunk_def payload_def take_map chunkSize_def)

lemma payload_chunk: "payload (chunkSize + n) = chunk @ payload n"
proof -
  have "[0..<chunkSize + n] = [0..<chunkSize] @ map (\<lambda>i. i + chunkSize) [0..<n]"
    by (simp add: upt_add_eq_append [of 0 chunkSize n] map_add_upt add.commute)
  then show ?thesis by (simp add: payload_def chunk_def comp_def)
qed

text \<open>The number of writes of a payload.\<close>

definition write_count :: "nat \<Rightarrow> nat" where
  "write_count n = (n + chunkSize - 1) div chunkSize"

lemma write_count_chunk: "write_count (chunkSize + n) = Suc (write_count n)"
  by (simp add: write_count_def chunkSize_def)

lemma write_count_small: "0 < n \<Longrightarrow> n \<le> chunkSize \<Longrightarrow> write_count n = 1"
  by (simp add: write_count_def chunkSize_def)

text \<open>If its writes succeed, the whole payload is sent; otherwise a prefix of it.\<close>

lemma writePayload_step:
  "length chunk = chunkSize"
  "0 < n \<Longrightarrow> n \<le> chunkSize \<Longrightarrow>
    writePayload fails i (int n) = (case fails i of Some k \<Rightarrow> take k (payload n) | None \<Rightarrow> payload n)"
  "writePayload fails i (int (chunkSize + n)) =
    (case fails i of Some k \<Rightarrow> take k chunk | None \<Rightarrow> chunk @ writePayload fails (i + 1) (int n))"
proof -
  show len: "length chunk = chunkSize" by (simp add: chunk_def)
  show "0 < n \<Longrightarrow> n \<le> chunkSize \<Longrightarrow>
    writePayload fails i (int n) = (case fails i of Some k \<Rightarrow> take k (payload n) | None \<Rightarrow> payload n)"
    using writePayload.simps [of fails "i + 1" 0]
    by (simp add: writePayload.simps [of fails i "int n"] len take_chunk Let_def split: option.split)
  show "writePayload fails i (int (chunkSize + n)) =
    (case fails i of Some k \<Rightarrow> take k chunk | None \<Rightarrow> chunk @ writePayload fails (i + 1) (int n))"
    using len unfolding writePayload.simps [of fails i "int (chunkSize + n)"]
    by (cases n) (simp_all add: Let_def chunkSize_def split: option.split)
qed

lemma writePayload_payload:
  "prefix (writePayload fails i (int n)) (payload n)
    \<and> (list_all (\<lambda>j. fails j = None) [i..<i + write_count n] \<longrightarrow> writePayload fails i (int n) = payload n)"
proof (induction n arbitrary: i rule: less_induct)
  case (less n)
  consider "n = 0" | "0 < n" "n \<le> chunkSize" | m where "n = chunkSize + m" "m < n"
    by (metis add_diff_inverse_nat chunkSize_def diff_less gr_zeroI nat_le_linear not_le zero_less_numeral)
  then show ?case
  proof cases
    case 1
    then show ?thesis by (simp add: writePayload.simps payload_def)
  next
    case 2
    then show ?thesis by (auto simp: writePayload_step(2) write_count_small take_is_prefix split: option.split)
  next
    case (3 m)
    have "prefix (take k chunk) (payload n)" for k
      unfolding 3(1) payload_chunk by (rule prefix_prefix) (rule take_is_prefix)
    moreover have "[i..<i + write_count n] = i # [i + 1..<i + 1 + write_count m]"
      unfolding 3(1) write_count_chunk by (subst upt_conv_Cons) auto
    ultimately show ?thesis
      using less.IH [OF 3(2), of "i + 1"] unfolding 3(1) writePayload_step(3) payload_chunk
      by (simp del: upt_Suc split: option.split)
  qed
qed

section \<open>Properties\<close>

text \<open>
  C34: The payload handler keeps its word. A size is accepted exactly if it is a decimal number from
  0 to 1048576; if its write_count (one for each 32768 bytes) succeed the body then is the repeating alphabet
  payload of that size, as long as the \<open>Content-Length\<close> announces, and otherwise a prefix of it; every
  other path is answered with status 400.
\<close>

theorem bytes_handler_payload:
  "let r = bytes_handler fails (''/bytes/'' @ s)
   in case Atoi s of
        None \<Rightarrow> status r = 400
      | Some n \<Rightarrow>
          if 0 \<le> n \<and> n \<le> 1048576 then
            status r = 200 \<and> content_length r = Some (Itoa (nat n))
            \<and> (if list_all (\<lambda>j. fails j = None) [0..<write_count (nat n)]
                then body r = payload (nat n) \<and> length (body r) = nat n
                else prefix (body r) (payload (nat n)))
          else status r = 400"
proof (cases "Atoi s")
  case (Some n)
  show ?thesis
  proof (cases "0 \<le> n \<and> n \<le> 1048576")
    case True
    then show ?thesis
      using Some writePayload_payload [of fails 0 "nat n"]
      by (simp add: bytes_handler_def TrimPrefix_def maxPayloadBytes_def length_payload)
  qed (use Some in \<open>auto simp: bytes_handler_def TrimPrefix_def maxPayloadBytes_def\<close>)
qed (simp add: bytes_handler_def TrimPrefix_def)

end
