(* ===== verification/Spec2Isabelle.thy ===== *)
theory Spec2Isabelle
  imports Argo_Start Bench_Server
begin

text \<open>
  A verification development for argonaut, the companion binary for AWS Nitro Enclaves (package
  \<open>main\<close> in \<open>src/*.go\<close>), and its test programs (\<open>src/scripts\<close>). The same binary runs on the parent
  instance (\<open>argonaut host\<close>) and in the enclave (\<open>argonaut enclave\<close>, \<open>argonaut nsm\<close>); the host delivers the configuration over VSOCK, both
  sides bridge TCP and VSOCK connections, and the enclave side answers attestation and randomness
  requests over a line protocol.

  \<^bold>\<open>Theories and the code they model.\<close>

  \<^item> \<open>Argo_Prelude\<close>: the machine types and the error sums (\<open>Inl\<close> is Go's error) shared by all.
  \<^item> \<open>Go_Text\<close>: what the program uses of \<open>strings\<close>, \<open>strconv\<close>, \<open>unicode/utf8\<close>, \<open>encoding/hex\<close> and
    \<open>net.JoinHostPort\<close>, on byte strings.
  \<^item> \<open>Go_Json\<close>: what it uses of \<open>encoding/json\<close>: the scanner as the byte-driven state machine of the
    package with its nesting limit, string literals in both directions, struct field matching, and
    the lemma that the scanner reads printed values back.
  \<^item> \<open>Argo_Config\<close>: \<open>config.go\<close>, data and decoding (\<open>Config\<close>, \<open>Endpoint\<close>, both \<open>UnmarshalJSON\<close> methods,
    \<open>ParseConfig\<close>, \<open>normalizeConfig\<close>, \<open>readAllLimited\<close>).
  \<^item> \<open>Argo_Validate\<close>: \<open>config.go\<close>, validation (\<open>ValidateConfig\<close> and what it calls) and the declarative
    specification it is proved equal to. The locale \<open>index_table\<close> is the interface of its three tables.
  \<^item> \<open>Argo_Errors\<close>: \<open>config.go\<close>, the errors of the validation: which rule each stands for, in the order of
    the code, and the proof that these conditions determine the result.
  \<^item> \<open>Argo_Schema\<close>: the properties of the configuration: acceptance, the reported error, round trip
    through the JSON document, unknown and repeated fields.
  \<^item> \<open>Argo_Hosts\<close>: \<open>hosts.go\<close>: the managed block of the hosts file and its atomic replacement over a
    file system in which every call may fail.
  \<^item> \<open>Nsm_Device\<close>: \<open>nsm.go\<close>, opening and closing the device, the ioctl with its buffers and the CBOR
    messages.
  \<^item> \<open>Nsm_Protocol\<close>, \<open>Nsm_Requests\<close>, \<open>Nsm_Client\<close>: \<open>nsm.go\<close>, the JSON Lines and the legacy protocol; the
    service both implement; the contract of a backend (locale \<open>nsm_backend\<close>, interpreted on
    \<open>NitroBackend\<close>); the protocol as a client and the device see it.
  \<^item> \<open>Nsm_Server\<close>: \<open>nsm.go\<close>, \<open>readNsmLine\<close> over a \<open>bufio.Reader\<close> and the loop of \<open>nsmMode\<close>.
  \<^item> \<open>Nsm_Process\<close>: \<open>nsm.go\<close>, the whole of \<open>nsmMode\<close> and the system calls it makes, seen by a kernel that
    records them.
  \<^item> \<open>Argo_Settings\<close>: \<open>main.go\<close>, the settings from the environment.
  \<^item> \<open>Argo_Bridge\<close>: \<open>main.go\<close>, the connection limiter (locale \<open>slots\<close>), the VSOCK peer check and the
    four accept loops as a step relation with its reachable states.
  \<^item> \<open>Argo_Conn\<close>: \<open>main.go\<close>, connections with their deadlines and half-close under the wrapper
    \<open>idleTimeoutConn\<close> (locale \<open>timed_io\<close>, interpreted on reads and on writes).
  \<^item> \<open>Argo_Copy\<close>: \<open>main.go\<close>, \<open>writeAll\<close> and the bidirectional copy with its two goroutines interleaved in
    every order and the half-close at the end of each.
  \<^item> \<open>Argo_Idle\<close>: the copy over wrapped connections in time: it ends once the peers are silent.
  \<^item> \<open>Argo_Session\<close>: \<open>main.go\<close>, the three functions that bridge a connection, the connection counter and
    the log of connections, and the steps of all connections of the process together.
  \<^item> \<open>Argo_Run\<close>: \<open>main.go\<close>, command line, host, enclave and config modes, and \<open>loopback_linux.go\<close>.
  \<^item> \<open>Argo_Samples\<close>: runs of both modes, for the examples, among them one on the configuration file that
    \<open>scripts/nitro-smoke.sh\<close> writes.
  \<^item> \<open>Argo_Start\<close>: \<open>main.go\<close>, the listeners of the four bridges and the start of all bridges of a mode.
  \<^item> \<open>Smoke_Config\<close>, \<open>Smoke_Nsm\<close>, \<open>Smoke_Runner\<close>: \<open>scripts/nitro-smoke/enclave-runner/main.go\<close>, the
    configuration as the smoke test reads it, its test of \<open>argonaut nsm\<close>, and the whole run, which is
    proved to pass against the models of the program if nothing fails outside it.
  \<^item> \<open>Host_Echo\<close>: \<open>scripts/nitro-smoke/host-echo/main.go\<close>, the server at the end of the outbound bridge.
  \<^item> \<open>Bench_Server\<close>: \<open>scripts/nitro-bench/enclave-server/main.go\<close>, the payload server.
  \<^item> this theory: the property that spans host and enclave, the agreement of both ends.

  \<^bold>\<open>State.\<close> A Go struct is a record with the fields of the code, a nil slice or pointer is \<open>None\<close>, a
  \<open>string\<close> is a list of bytes, an unsigned integer is a word of its width, a map is a partial
  function, an interface value is a datatype of its implementations (\<open>net_conn\<close>). Everything the
  program cannot decide itself is an argument and the theorems hold for all its values: the backend
  of the line protocol, the CBOR package (\<open>cbor\<close>), the kernel behind the device (\<open>kernel\<close>), the
  outcomes of the file system calls, the scripts and instants of network reads and writes, the
  addresses that cannot be bound, \<open>time.ParseDuration\<close>, and for the test programs their child
  processes and the clock.

  \<^bold>\<open>Bounds.\<close> The limits are those of the code: configurations and request lines of 1 MiB, 191
  endpoints (so that the default addresses 127.0.0.64 to 127.0.0.254 exist), 4096 bytes of request and
  12288 of response for the device, the nesting limit 10000 of the JSON scanner. No definition
  needs fuel: every loop is a terminating recursion, over the input where the code reads it, over
  the time left to the deadline in the polling loops of the smoke test, or a step relation where the
  code runs forever (the accept loops) or concurrently (the copy, whose termination is the property
  \<open>copyBidirectional_returns\<close>, and for silent peers under idle timeouts \<open>idle_copy_returns\<close>). The only number that
  could wrap around in use is the connection counter; \<open>connection_log_pairs\<close> states its limit.

  \<^bold>\<open>Not modelled.\<close> The texts of log lines and of JSON errors, and the durations in the log; \<open>usage\<close>,
  which prints and exits; \<open>loopback_other.go\<close>, where \<open>ensureLoopbackUp\<close> only returns nil; what
  \<open>net/http\<close> does around the handlers of the test programs; scheduling times of goroutines; the shell
  scripts and the container files that start the programs.
\<close>

section \<open>Host and enclave\<close>

text \<open>
  C1: The two ends fit together. If the host mode has started its bridges and the enclave mode has
  started on the bytes the host sent, both work on the same list of endpoints: the enclave proxies
  dial, endpoint by endpoint, the VSOCK ports on which the host listens, the host dials the
  endpoint's host name and port, the hosts file of the enclave ends with the block of exactly these
  endpoints, so that each name resolves to the address of its proxy, the inbound VSOCK port agrees,
  and no two listeners of either side collide.
\<close>

theorem host_and_enclave_agree:
  assumes "hostMode cfg args files dial_ok ws = HostRunning pl"
    "enclaveMode (sent_config pl) stdin_fails calls flags read_ok out fs = (trace, flags', EnclaveRunning ql)"
    "fresh_temp out hostsPath fs"
  shows "\<exists>eps base.
      host_outbound pl = map (\<lambda>ep. (VsockPort ep, host_target ep, fst (sent_to pl))) eps
      \<and> enclave_outbound ql = map (\<lambda>i. (proxy_addr i (eps ! i), 3, VsockPort (eps ! i))) [0..<length eps]
      \<and> map_option data (last trace hostsPath) = Some (base @ [lf, lf] @ hosts_block eps)
      \<and> fst (enclave_inbound ql) = snd (snd (host_inbound pl))
      \<and> distinct (map fst (host_outbound pl)) \<and> distinct (map fst (enclave_outbound ql))"
proof -
  obtain cid raw parsed eps where h: "ParseConfig raw = Inr parsed" "Endpoints parsed = Some eps"
    "endpoints_ok eps"
    "pl = \<lparr>sent_config = raw, sent_to = (of_nat cid, configVsockPort),
       host_inbound = (JoinHostPort (configuredHostHTTPBindAddr cfg) (Itoa (unat (HTTPPort parsed))),
         of_nat cid, HTTPVsockPort parsed),
       host_outbound = map (\<lambda>ep. (VsockPort ep, host_target ep, of_nat cid)) eps\<rparr>"
    by (rule hostMode_Running [OF assms(1)])
  obtain parsed' eps' where e: "ParseConfig (sent_config pl) = Inr parsed'" "Endpoints parsed' = Some eps'"
    "writeHosts read_ok out hostsPath eps' fs = (trace, Inr ())"
    "ql = \<lparr>enclave_inbound = (HTTPVsockPort parsed', local_target (HTTPTCPPort parsed'), parentCID),
       enclave_outbound = map (\<lambda>i. (proxy_addr i (eps' ! i), parentCID, VsockPort (eps' ! i))) [0..<length eps']\<rparr>"
    by (rule enclaveMode_Running [OF assms(2)])
  have same: "parsed' = parsed" "eps' = eps" using h e(1,2) by simp_all
  obtain content where "mergeHosts (old_content fs) eps = Inr content"
    "last trace = fs(hostsPath \<mapsto> new_file content 420)"
    using writeHosts_final [OF e(3) assms(3)] same by auto
  then have "map_option data (last trace hostsPath) =
      Some (hosts_base (old_content fs) @ [lf, lf] @ hosts_block eps)"
    by (auto simp: mergeHosts_def result_iff new_file_def)
  moreover have "distinct (map VsockPort eps)" using h(3) by (simp add: endpoints_ok_def)
  ultimately show ?thesis
    using h(4) e(4) same proxies_distinct [OF h(3)]
    by (intro exI [of _ eps] exI [of _ "hosts_base (old_content fs)"]) (simp add: comp_def parentCID_def)
qed

theorem host_and_enclave_agree_example:
  "\<exists>(pl :: host_plan) (ql :: enclave_plan) eps. sent_config pl = doc_text sample_config
    \<and> host_outbound pl = map (\<lambda>ep. (VsockPort ep, host_target ep, fst (sent_to pl))) eps
    \<and> enclave_outbound ql = map (\<lambda>i. (proxy_addr i (eps ! i), 3, VsockPort (eps ! i))) [0..<length eps]"
proof -
  obtain pl where pl: "hostMode sample_settings sample_args [''config.json'' \<mapsto> doc_text sample_config] True
      [(length (doc_text sample_config), None)] = HostRunning pl" "sent_config pl = doc_text sample_config"
    using host_runs [OF sample_usable] by blast
  obtain trace flags' ql where ql: "enclaveMode (sent_config pl) False sample_loopback 0 True
      (sample_outcomes True) Map.empty = (trace, flags', EnclaveRunning ql)"
    using enclave_runs [OF sample_usable] pl(2) by auto
  from host_and_enclave_agree [OF pl(1) ql sample_temp] pl(2) show ?thesis by blast
qed

end
